theory Spec2Isabelle
  imports Complex_Main
begin

section \<open>JavaScript values, strings and regular expressions used by the middleware\<close>

text \<open>
  Two revisions of the anti-bot middleware are embedded: \<^verbatim>\<open>src/server/middleware/antiBot.js\<close>
  (plain names) and the earlier revision \<^verbatim>\<open>unnamed/part_001\<close> (names ending in \<open>_p1\<close>).
  Numbers are modelled as \<open>int\<close> where the code only adds integers (scores, timestamps in
  milliseconds) and as \<open>real\<close> where it divides or multiplies by fractions. The reals are
  exact: the rounding of IEEE doubles is not modelled, so a confidence that the code
  computes within a rounding error of a threshold can fall on the other side of it here,
  and \<open>NaN\<close> has no counterpart. A header value is a string of Latin-1 characters, as Node
  delivers it; an absent header is \<open>None\<close> (JavaScript \<open>undefined\<close>).
\<close>

datatype error = TypeError

type_synonym headers = "string \<Rightarrow> string option"

text \<open>Truthiness of a header value: \<open>undefined\<close> and the empty string are falsy.\<close>

definition truthy :: "string option \<Rightarrow> bool" where
  "truthy v = (case v of None \<Rightarrow> False | Some s \<Rightarrow> s \<noteq> [])"

text \<open>\<open>v || ''\<close> for a string-or-undefined \<open>v\<close>.\<close>

definition or_empty :: "string option \<Rightarrow> string" where
  "or_empty v = (case v of None \<Rightarrow> [] | Some s \<Rightarrow> s)"

fun starts_with :: "string \<Rightarrow> string \<Rightarrow> bool" where
  "starts_with [] s = True"
| "starts_with (c # cs) [] = False"
| "starts_with (c # cs) (d # ds) = (c = d \<and> starts_with cs ds)"

text \<open>\<open>search P s\<close>: some suffix of \<open>s\<close> (a match position) satisfies \<open>P\<close>.\<close>

fun search :: "(string \<Rightarrow> bool) \<Rightarrow> string \<Rightarrow> bool" where
  "search P [] = P []"
| "search P (c # cs) = (P (c # cs) \<or> search P cs)"

text \<open>\<open>String.prototype.includes\<close>: \<open>s.includes(sub)\<close>.\<close>

definition str_includes :: "string \<Rightarrow> string \<Rightarrow> bool" where
  "str_includes s sub = search (starts_with sub) s"

text \<open>\<open>toLowerCase\<close> on Latin-1: A-Z and the accented capitals (0xC0-0xDE but 0xD7) move by 32.\<close>

definition lower_char :: "char \<Rightarrow> char" where
  "lower_char c =
     (let n = (of_char c :: nat)
      in if (65 \<le> n \<and> n \<le> 90) \<or> (192 \<le> n \<and> n \<le> 222 \<and> n \<noteq> 215)
         then char_of (n + 32) else c)"

definition toLowerCase :: "string \<Rightarrow> string" where
  "toLowerCase s = map lower_char s"

definition is_digit :: "char \<Rightarrow> bool" where
  "is_digit c = (let n = (of_char c :: nat) in 48 \<le> n \<and> n \<le> 57)"

text \<open>The character classes \<open>[\d.]\<close>, \<open>[\d._]\<close> and \<open>[\d_]\<close>.\<close>

definition digit_dot :: "char \<Rightarrow> bool" where
  "digit_dot c = (is_digit c \<or> c = CHR ''.'')"

definition digit_dot_us :: "char \<Rightarrow> bool" where
  "digit_dot_us c = (is_digit c \<or> c = CHR ''.'' \<or> c = CHR ''_'')"

definition digit_us :: "char \<Rightarrow> bool" where
  "digit_us c = (is_digit c \<or> c = CHR ''_'')"

text \<open>A literal followed by one or more characters of a class, matched at the start of \<open>s\<close>.\<close>

definition lit_class_at :: "string \<Rightarrow> (char \<Rightarrow> bool) \<Rightarrow> string \<Rightarrow> bool" where
  "lit_class_at lit cls s =
     (starts_with lit s \<and> (case drop (length lit) s of [] \<Rightarrow> False | c # _ \<Rightarrow> cls c))"

text \<open>\<open>/lit[cls]+/.test(s)\<close>: the pattern matches somewhere in \<open>s\<close>.\<close>

definition test_lit_class :: "string \<Rightarrow> (char \<Rightarrow> bool) \<Rightarrow> string \<Rightarrow> bool" where
  "test_lit_class lit cls s = search (lit_class_at lit cls) s"

text \<open>\<open>.*\<close> followed by a pattern: the dot matches any character but a line terminator.\<close>

definition line_terminator :: "char \<Rightarrow> bool" where
  "line_terminator c = (c = CHR 0x0A \<or> c = CHR 0x0D)"

fun dot_star_then :: "(string \<Rightarrow> bool) \<Rightarrow> string \<Rightarrow> bool" where
  "dot_star_then P [] = P []"
| "dot_star_then P (c # cs) = (P (c # cs) \<or> (\<not> line_terminator c \<and> dot_star_then P cs))"

text \<open>\<open>/a.*b[cls]+/.test(s)\<close>.\<close>

definition test_lit_gap_lit_class :: "string \<Rightarrow> string \<Rightarrow> (char \<Rightarrow> bool) \<Rightarrow> string \<Rightarrow> bool" where
  "test_lit_gap_lit_class a b cls s =
     search (\<lambda>t. starts_with a t \<and> dot_star_then (lit_class_at b cls) (drop (length a) t)) s"

text \<open>\<open>/(\d+\.)+\d+/.test(s)\<close>: every match contains, and is implied by, digit-dot-digit.\<close>

fun version_at :: "string \<Rightarrow> bool" where
  "version_at (a # b # c # _) = (is_digit a \<and> b = CHR ''.'' \<and> is_digit c)"
| "version_at _ = False"

definition versionPattern :: "string \<Rightarrow> bool" where
  "versionPattern s = search version_at s"

text \<open>\<open>components.join(sep)\<close>.\<close>

fun join :: "string \<Rightarrow> string list \<Rightarrow> string" where
  "join sep [] = []"
| "join sep [x] = x"
| "join sep (x # y # ys) = x @ sep @ join sep (y # ys)"

section \<open>Requests and the JavaScript Map\<close>

record request =
  req_headers :: headers
  req_path :: string
  req_method :: string
  req_ip :: "string option"
  req_ident :: nat

text \<open>
  \<open>req_ident\<close> is the identity of the request object: \<open>legitimateClients\<close> is a WeakSet of
  request objects, so membership is by identity and not by content.

  A Map is an association list in insertion order; \<open>set\<close> replaces the value of an
  existing key in place and appends a new key at the end.
\<close>

definition map_get :: "('k \<times> 'v) list \<Rightarrow> 'k \<Rightarrow> 'v option" where
  "map_get m k = map_of m k"

fun map_set :: "'k \<Rightarrow> 'v \<Rightarrow> ('k \<times> 'v) list \<Rightarrow> ('k \<times> 'v) list" where
  "map_set k v [] = [(k, v)]"
| "map_set k v ((k', v') # m) = (if k' = k then (k, v) # m else (k', v') # map_set k v m)"

definition map_delete :: "'k \<Rightarrow> ('k \<times> 'v) list \<Rightarrow> ('k \<times> 'v) list" where
  "map_delete k m = filter (\<lambda>e. fst e \<noteq> k) m"

definition PATTERN_MEMORY :: int where
  "PATTERN_MEMORY = 5 * 60 * 1000"

section \<open>antiBot.js: BrowserVerification\<close>

text \<open>
  \<open>generateFingerprint\<close>: the components are the listed headers, in this order, and then
  \<open>req.ip\<close>; \<open>filter(Boolean)\<close> drops the falsy ones. The SHA-256 hex digest of Node's
  \<open>crypto\<close> module is the parameter \<open>h\<close>.
\<close>

definition fingerprint_headers :: "string list" where
  "fingerprint_headers =
     [''user-agent'', ''accept'', ''accept-language'', ''accept-encoding'', ''connection'',
      ''upgrade-insecure-requests'', ''viewport-width'', ''sec-ch-ua-full-version-list'',
      ''sec-ch-ua-platform-version'']"

definition fingerprint_components :: "request \<Rightarrow> string option list" where
  "fingerprint_components req = map (req_headers req) fingerprint_headers @ [req_ip req]"

definition generateFingerprint :: "(string \<Rightarrow> string) \<Rightarrow> request \<Rightarrow> string" where
  "generateFingerprint h req =
     h (join '':|:'' (map or_empty (filter truthy (fingerprint_components req))))"

definition calculateHeaderScore :: "headers \<Rightarrow> int" where
  "calculateHeaderScore hs =
     (if truthy (hs ''user-agent'') then 20 else 0)
   + (if truthy (hs ''accept'') then 10 else 0)
   + (if truthy (hs ''accept-language'') then 10 else 0)
   + (if truthy (hs ''accept-encoding'') then 10 else 0)
   + (if truthy (hs ''sec-fetch-site'') then 5 else 0)
   + (if truthy (hs ''sec-fetch-mode'') then 5 else 0)
   + (if truthy (hs ''sec-fetch-dest'') then 5 else 0)"

definition botIndicators :: "string list" where
  "botIndicators =
     [''selenium'', ''webdriver'', ''headless'', ''phantom'',
      ''puppeteer'', ''playwright'', ''cypress'', ''automation'',
      ''metamask'', ''bot'', ''crawler'', ''spider'']"

text \<open>The \<open>forEach\<close> over the indicators: 50 off for each one the user agent contains.\<close>

fun indicator_penalty :: "string \<Rightarrow> string list \<Rightarrow> int \<Rightarrow> int" where
  "indicator_penalty userAgent [] score = score"
| "indicator_penalty userAgent (i # rest) score =
     indicator_penalty userAgent rest (if str_includes userAgent i then score - 50 else score)"

definition quoted_chromium :: string where
  "quoted_chromium = CHR 0x22 # ''chromium'' @ [CHR 0x22]"

definition validateSpecialHeaders :: "headers \<Rightarrow> int" where
  "validateSpecialHeaders hs =
     (let userAgent = or_empty (map_option toLowerCase (hs ''user-agent''));
          score = indicator_penalty userAgent botIndicators 0
      in if truthy (hs ''sec-ch-ua'') then
           (let ua = toLowerCase (or_empty (hs ''sec-ch-ua''))
            in if str_includes ua quoted_chromium \<and> \<not> str_includes (toLowerCase userAgent) ''chrome''
               then score - 30 else score)
         else score)"

text \<open>
  \<open>analyzeUserAgent\<close>: the patterns carry the \<open>i\<close> flag and run on the lower-cased user
  agent; \<open>some\<close> stops at the first browser (operating system) that matches, so each group
  adds 15 at most once.
\<close>

definition browser_match :: "string \<Rightarrow> bool" where
  "browser_match lowerUA =
     (test_lit_class ''chrome/'' digit_dot lowerUA
    \<or> test_lit_class ''firefox/'' digit_dot lowerUA
    \<or> test_lit_class ''safari/'' digit_dot lowerUA
    \<or> (test_lit_class ''edg/'' digit_dot lowerUA \<or> test_lit_class ''edge/'' digit_dot lowerUA)
    \<or> test_lit_class ''opr/'' digit_dot lowerUA)"

definition os_match :: "string \<Rightarrow> bool" where
  "os_match lowerUA =
     (test_lit_class ''windows nt '' digit_dot lowerUA
    \<or> test_lit_gap_lit_class ''macintosh'' ''mac os x '' digit_dot_us lowerUA
    \<or> test_lit_class ''iphone os '' digit_dot_us lowerUA
    \<or> test_lit_class ''android '' digit_dot lowerUA
    \<or> str_includes lowerUA ''linux'')"

definition analyzeUserAgent :: "string option \<Rightarrow> int" where
  "analyzeUserAgent ua =
     (if \<not> truthy ua then - 50
      else (let lowerUA = toLowerCase (or_empty ua)
            in (if browser_match lowerUA then 15 else 0)
             + (if os_match lowerUA then 15 else 0)
             + (if versionPattern (or_empty ua) then 10 else 0)))"

definition uaIndicatesMobile :: "string \<Rightarrow> bool" where
  "uaIndicatesMobile ua =
     (str_includes ua ''mobile'' \<or> str_includes ua ''android'' \<or> str_includes ua ''iphone''
    \<or> str_includes ua ''ipad'' \<or> str_includes ua ''ipod'')"

definition checkConsistency :: "headers \<Rightarrow> int" where
  "checkConsistency hs =
     (if truthy (hs ''sec-ch-ua-platform'') \<and> truthy (hs ''user-agent'') then
        (let platform = toLowerCase (or_empty (hs ''sec-ch-ua-platform''));
             ua = toLowerCase (or_empty (hs ''user-agent''))
         in (if str_includes platform ''windows'' \<and> str_includes ua ''windows'' then 10 else 0)
          + (if str_includes platform ''mac'' \<and> str_includes ua ''macintosh'' then 10 else 0)
          + (if str_includes platform ''android'' \<and> str_includes ua ''android'' then 10 else 0)
          + (if str_includes platform ''ios'' \<and> str_includes ua ''iphone'' then 10 else 0))
      else 0)
   + (if truthy (hs ''sec-ch-ua-mobile'') then
        (let isMobile = (hs ''sec-ch-ua-mobile'' = Some ''?1'');
             ua = or_empty (map_option toLowerCase (hs ''user-agent''))
         in if isMobile = uaIndicatesMobile ua then 10 else 0)
      else 0)"

record browserCheck =
  bc_valid :: bool
  bc_score :: int
  bc_maxScore :: int
  bc_details_headers :: "string option"
  bc_details_score :: int

definition validateBrowserEnvironment :: "request \<Rightarrow> browserCheck" where
  "validateBrowserEnvironment req =
     (let hs = req_headers req;
          score = 0 + calculateHeaderScore hs + analyzeUserAgent (hs ''user-agent'')
                    + checkConsistency hs + validateSpecialHeaders hs
      in \<lparr>bc_valid = (score \<ge> 40), bc_score = score, bc_maxScore = 100,
          bc_details_headers = hs ''user-agent'', bc_details_score = score\<rparr>)"

section \<open>antiBot.js: BehaviorAnalysis\<close>

record relevant_p1 =
  encoding :: "string option"
  language :: "string option"
  cache :: "string option"
  connection :: "string option"

record relevant = relevant_p1 +
  platform :: "string option"

record 'h pattern =
  timestamp :: int
  path :: string
  pattern_method :: string
  pattern_headers :: 'h

definition getRelevantHeaders :: "headers \<Rightarrow> relevant" where
  "getRelevantHeaders hs =
     \<lparr>encoding = hs ''accept-encoding'', language = hs ''accept-language'',
      cache = hs ''cache-control'', connection = hs ''connection'',
      platform = hs ''sec-ch-ua-platform''\<rparr>"

record details =
  timing :: real
  navigation :: real
  headers_factor :: real

record analysis =
  confidence :: real
  suspicious :: nat
  analysis_details :: details

record clientData =
  patterns :: "relevant pattern list"
  lastSeen :: int
  behaviorScore :: real
  cd_suspicious :: nat

record behavior =
  humanLike :: bool
  b_confidence :: real
  b_details :: details
  b_suspicious :: nat

definition calculateSuspiciousScore :: "real \<Rightarrow> real \<Rightarrow> real \<Rightarrow> nat" where
  "calculateSuspiciousScore t n h =
     (if t < 0.3 then 1 else 0) + (if n < 0.3 then 1 else 0) + (if h < 0.3 then 1 else 0)"

text \<open>The loop \<open>for (i = 1; i < patterns.length; i++)\<close> over consecutive events.\<close>

fun intervals :: "'h pattern list \<Rightarrow> int list" where
  "intervals (p # q # ps) = (timestamp q - timestamp p) # intervals (q # ps)"
| "intervals _ = []"

definition analyzeTimingPatterns :: "'h pattern list \<Rightarrow> real" where
  "analyzeTimingPatterns ps =
     (let ivs = intervals ps
      in if length ivs = 0 then 1
         else
           (let mean = real_of_int (foldl (\<lambda>a b. a + b) 0 ivs) / real (length ivs);
                variance = foldl (\<lambda>a b. a + (real_of_int b - mean)\<^sup>2) 0 ivs / real (length ivs);
                stdDev = sqrt variance;
                isRegular = (stdDev < 100);
                hasTooFast = (\<exists>i \<in> set ivs. i < 50)
            in if isRegular \<and> hasTooFast then 0
               else if isRegular then 0.3
               else if hasTooFast then 0.5
               else 1))"

fun count_repetitions :: "string list \<Rightarrow> nat" where
  "count_repetitions (a # b # c # ps) =
     (if c = b \<and> b = a then 1 else 0) + count_repetitions (b # c # ps)"
| "count_repetitions _ = 0"

definition calculateRepetition :: "string list \<Rightarrow> real" where
  "calculateRepetition paths =
     (if length paths < 3 then 0
      else min (real (count_repetitions paths) / real (length paths - 2)) 1)"

definition validFlows :: "string list list" where
  "validFlows =
     [[''/''],
      [''/'', ''/check-ip''],
      [''/check-ip'', ''/loading''],
      [''/loading'', ''/review''],
      [''/review'', ''/complete'']]"

text \<open>
  \<open>flow[k].includes(x)\<close>: an index past the end of the flow reads \<open>undefined\<close>, and calling
  \<open>includes\<close> on \<open>undefined\<close> raises a TypeError.
\<close>

definition flow_includes :: "string list \<Rightarrow> nat \<Rightarrow> string \<Rightarrow> error + bool" where
  "flow_includes flow k x =
     (if k < length flow then Inr (str_includes (flow ! k) x) else Inl TypeError)"

text \<open>\<open>flows.some(flow => flow[0].includes(a) && flow[1].includes(b))\<close>, left to right.\<close>

fun some_flow :: "string list list \<Rightarrow> string \<Rightarrow> string \<Rightarrow> error + bool" where
  "some_flow [] a b = Inr False"
| "some_flow (flow # flows) a b =
     (case flow_includes flow 0 a of
        Inl e \<Rightarrow> Inl e
      | Inr first \<Rightarrow>
          if first then
            (case flow_includes flow 1 b of
               Inl e \<Rightarrow> Inl e
             | Inr second \<Rightarrow> if second then Inr True else some_flow flows a b)
          else some_flow flows a b)"

fun hasLogicalFlow :: "string list \<Rightarrow> error + bool" where
  "hasLogicalFlow (a # b # ps) =
     (case some_flow validFlows a b of
        Inl e \<Rightarrow> Inl e
      | Inr found \<Rightarrow> if \<not> found then Inr False else hasLogicalFlow (b # ps))"
| "hasLogicalFlow _ = Inr True"

definition analyzeNavigationPatterns :: "'h pattern list \<Rightarrow> error + real" where
  "analyzeNavigationPatterns ps =
     (let paths = map path ps;
          repetition = calculateRepetition paths;
          score1 = 1 * (1 - repetition)
      in case hasLogicalFlow paths of
           Inl e \<Rightarrow> Inl e
         | Inr logical \<Rightarrow> Inr (if \<not> logical then score1 * 0.7 else score1))"

text \<open>
  The class \<open>BehaviorAnalysis\<close> of antiBot.js calls \<open>this.analyzeHeaderConsistency\<close> and
  \<open>this.calculateBehaviorScore\<close> but declares neither. They are the parameters \<open>ahc\<close> and
  \<open>cbs\<close> of the functions below. In the file as it stands both are \<open>undefined\<close>, and the
  call raises a TypeError: that is \<open>not_a_function\<close>.
\<close>

definition not_a_function :: "'a \<Rightarrow> error + 'b" where
  "not_a_function x = Inl TypeError"

definition analyzeBehaviorPatterns ::
  "(relevant pattern list \<Rightarrow> error + real) \<Rightarrow> relevant pattern list \<Rightarrow> error + analysis" where
  "analyzeBehaviorPatterns ahc ps =
     (if length ps < 2 then
        Inr \<lparr>confidence = 0.7, suspicious = 0,
             analysis_details = \<lparr>timing = 1, navigation = 1, headers_factor = 1\<rparr>\<rparr>
      else
        (let t = analyzeTimingPatterns ps
         in case analyzeNavigationPatterns ps of
              Inl e \<Rightarrow> Inl e
            | Inr n \<Rightarrow>
                (case ahc ps of
                   Inl e \<Rightarrow> Inl e
                 | Inr hds \<Rightarrow>
                     Inr \<lparr>confidence = t * 0.3 + n * 0.4 + hds * 0.3,
                          suspicious = calculateSuspiciousScore t n hds,
                          analysis_details =
                            \<lparr>timing = t, navigation = n, headers_factor = hds\<rparr>\<rparr>)))"

type_synonym cache = "(string \<times> clientData) list"

text \<open>
  \<open>analyze\<close>, with the clock reading \<open>Date.now()\<close> as the argument \<open>now\<close>. The profile found
  in the Map is mutated in place (\<open>push\<close>, then the assignment of the filtered list), so
  when a later call raises, the Map already holds the pruned event list; a profile created
  by this call reaches the Map only through the final \<open>set\<close>.
\<close>

definition analyze ::
  "(relevant pattern list \<Rightarrow> error + real) \<Rightarrow> (analysis \<Rightarrow> error + real) \<Rightarrow>
   int \<Rightarrow> request \<Rightarrow> string \<Rightarrow> cache \<Rightarrow> (error + behavior) \<times> cache" where
  "analyze ahc cbs now req fingerprint bcache =
     (let cached = map_get bcache fingerprint;
          clientData0 = (case cached of
                           Some d \<Rightarrow> d
                         | None \<Rightarrow> \<lparr>patterns = [], lastSeen = now, behaviorScore = 0, cd_suspicious = 0\<rparr>);
          pattern = \<lparr>timestamp = now, path = req_path req, pattern_method = req_method req,
                     pattern_headers = getRelevantHeaders (req_headers req)\<rparr>;
          pats = filter (\<lambda>p. now - timestamp p < PATTERN_MEMORY) (patterns clientData0 @ [pattern]);
          clientData1 = clientData0\<lparr>patterns := pats\<rparr>;
          cache1 = (case cached of
                      Some d \<Rightarrow> map_set fingerprint clientData1 bcache
                    | None \<Rightarrow> bcache)
      in case analyzeBehaviorPatterns ahc pats of
           Inl e \<Rightarrow> (Inl e, cache1)
         | Inr a \<Rightarrow>
             (case cbs a of
                Inl e \<Rightarrow> (Inl e, cache1)
              | Inr sc \<Rightarrow>
                  (Inr \<lparr>humanLike = (confidence a \<ge> 0.4), b_confidence = confidence a,
                        b_details = analysis_details a, b_suspicious = suspicious a\<rparr>,
                   map_set fingerprint
                     (clientData1\<lparr>behaviorScore := sc, lastSeen := now, cd_suspicious := suspicious a\<rparr>)
                     bcache)))"

section \<open>antiBot.js: detectBot\<close>

datatype reason = invalid_browser_environment | suspicious_behavior | combined_factors

datatype verdict_details =
    BrowserDetails "string option" int
  | BehaviorDetails "details option"
  | CombinedDetails int details

record verdict =
  isBot :: bool
  v_confidence :: real
  v_reason :: "reason option"
  v_score :: "int option"
  v_details :: "verdict_details option"
  v_fingerprint :: "string option"

record state =
  behaviorCache :: cache
  legitimateClients :: "nat set"

definition detectBot ::
  "(string \<Rightarrow> string) \<Rightarrow> (relevant pattern list \<Rightarrow> error + real) \<Rightarrow>
   (analysis \<Rightarrow> error + real) \<Rightarrow> int \<Rightarrow> request \<Rightarrow> state \<Rightarrow> (error + verdict) \<times> state" where
  "detectBot h ahc cbs now req st =
     (let fingerprint = generateFingerprint h req
      in if req_ident req \<in> legitimateClients st then
           (Inr \<lparr>isBot = False, v_confidence = 1, v_reason = None, v_score = None,
                 v_details = None, v_fingerprint = None\<rparr>, st)
         else
           (let bc = validateBrowserEnvironment req
            in if bc_score bc < 20 then
                 (Inr \<lparr>isBot = True, v_confidence = 0.95,
                       v_reason = Some invalid_browser_environment,
                       v_score = Some (bc_score bc),
                       v_details = Some (BrowserDetails (bc_details_headers bc) (bc_details_score bc)),
                       v_fingerprint = None\<rparr>, st)
               else
                 (case analyze ahc cbs now req fingerprint (behaviorCache st) of
                    (Inl e, cache') \<Rightarrow> (Inl e, st\<lparr>behaviorCache := cache'\<rparr>)
                  | (Inr b, cache') \<Rightarrow>
                      (let st' = st\<lparr>behaviorCache := cache'\<rparr>
                       in if \<not> humanLike b \<and> b_suspicious b > 1 then
                            (Inr \<lparr>isBot = True, v_confidence = 0.85,
                                  v_reason = Some suspicious_behavior, v_score = None,
                                  v_details = Some (BehaviorDetails (Some (b_details b))),
                                  v_fingerprint = None\<rparr>, st')
                          else if bc_score bc \<ge> 40 \<and> b_confidence b \<ge> 0.4 then
                            (Inr \<lparr>isBot = False, v_confidence = b_confidence b,
                                  v_reason = None, v_score = None, v_details = None,
                                  v_fingerprint = Some fingerprint\<rparr>,
                             st'\<lparr>legitimateClients := insert (req_ident req) (legitimateClients st')\<rparr>)
                          else
                            (Inr \<lparr>isBot = True, v_confidence = 0.6,
                                  v_reason = Some combined_factors, v_score = None,
                                  v_details = Some (CombinedDetails (bc_score bc) (b_details b)),
                                  v_fingerprint = None\<rparr>, st')))))"

section \<open>part_001: BrowserVerification\<close>

definition fingerprint_headers_p1 :: "string list" where
  "fingerprint_headers_p1 =
     [''user-agent'', ''accept'', ''accept-language'', ''accept-encoding'', ''sec-ch-ua'',
      ''sec-ch-ua-platform'', ''sec-fetch-dest'', ''sec-fetch-mode'', ''sec-fetch-site'']"

definition fingerprint_components_p1 :: "request \<Rightarrow> string option list" where
  "fingerprint_components_p1 req = map (req_headers req) fingerprint_headers_p1"

definition generateFingerprint_p1 :: "(string \<Rightarrow> string) \<Rightarrow> request \<Rightarrow> string" where
  "generateFingerprint_p1 h req =
     h (join '':|:'' (map or_empty (filter truthy (fingerprint_components_p1 req))))"

text \<open>A double quote, any characters but a double quote, a double quote: at the start of \<open>t\<close>.\<close>

definition quoted_at :: "string \<Rightarrow> bool" where
  "quoted_at t = (case t of [] \<Rightarrow> False | c # r \<Rightarrow> c = CHR 0x22 \<and> CHR 0x22 \<in> set r)"

definition validateHeaderFormat_p1 :: "string \<Rightarrow> string \<Rightarrow> bool" where
  "validateHeaderFormat_p1 header v =
     (if header = ''sec-ch-ua'' then
        search (\<lambda>t. quoted_at t \<or> (starts_with ''v='' t \<and> quoted_at (drop 2 t))) v
      else if header = ''sec-ch-ua-mobile'' then v = ''?0'' \<or> v = ''?1''
      else if header = ''sec-ch-ua-platform'' then search quoted_at v
      else if header = ''sec-fetch-site'' then
        v \<in> set [''none'', ''same-origin'', ''same-site'', ''cross-site'']
      else if header = ''sec-fetch-mode'' then
        v \<in> set [''navigate'', ''same-origin'', ''no-cors'', ''cors'']
      else if header = ''sec-fetch-dest'' then
        v \<in> set [''document'', ''script'', ''style'', ''image'', ''font'']
      else True)"

definition analyzeUserAgent_p1 :: "string \<Rightarrow> int" where
  "analyzeUserAgent_p1 ua =
     (if test_lit_class ''Chrome/'' digit_dot ua then 5 else 0)
   + (if test_lit_class ''Firefox/'' digit_dot ua then 5 else 0)
   + (if test_lit_class ''Safari/'' digit_dot ua then 5 else 0)
   + (if test_lit_class ''Edge/'' digit_dot ua then 5 else 0)
   + (if str_includes ua ''Mobile'' then 5 else 0)
   + (if test_lit_class ''Windows NT '' digit_dot ua then 5 else 0)
   + (if test_lit_gap_lit_class ''Macintosh'' ''Mac OS X '' digit_us ua then 5 else 0)
   + (if str_includes ua ''Linux'' then 5 else 0)
   + (if test_lit_class ''Android '' digit_dot ua then 5 else 0)
   + (if test_lit_class ''iPhone OS '' digit_us ua then 5 else 0)"

definition requiredHeaders_p1 :: "string list" where
  "requiredHeaders_p1 =
     [''sec-ch-ua'', ''sec-ch-ua-platform'', ''sec-ch-ua-mobile'',
      ''sec-fetch-site'', ''sec-fetch-mode'', ''sec-fetch-dest'',
      ''accept'', ''accept-encoding'', ''accept-language'']"

text \<open>The loop over the required headers: 10 for presence, 5 more for a well-formed value.\<close>

fun required_score_p1 :: "headers \<Rightarrow> string list \<Rightarrow> int \<Rightarrow> int" where
  "required_score_p1 hs [] score = score"
| "required_score_p1 hs (header # rest) score =
     required_score_p1 hs rest
       (if truthy (hs header) then
          (if validateHeaderFormat_p1 header (or_empty (hs header)) then score + 10 + 5
           else score + 10)
        else score)"

record browserCheck_p1 =
  valid_p1 :: bool
  score_p1 :: int
  maxScore_p1 :: int

definition validateBrowserEnvironment_p1 :: "request \<Rightarrow> browserCheck_p1" where
  "validateBrowserEnvironment_p1 req =
     (let hs = req_headers req;
          score1 = required_score_p1 hs requiredHeaders_p1 0;
          score2 = (if truthy (hs ''user-agent'')
                    then score1 + analyzeUserAgent_p1 (or_empty (hs ''user-agent''))
                    else score1)
      in \<lparr>valid_p1 = (score2 \<ge> 70), score_p1 = score2, maxScore_p1 = 100\<rparr>)"

section \<open>part_001: BehaviorAnalysis\<close>

definition getRelevantHeaders_p1 :: "headers \<Rightarrow> relevant_p1" where
  "getRelevantHeaders_p1 hs =
     \<lparr>encoding = hs ''accept-encoding'', language = hs ''accept-language'',
      cache = hs ''cache-control'', connection = hs ''connection''\<rparr>"

record analysis_p1 =
  humanLike_p1 :: bool
  confidence_p1 :: real
  details_p1 :: "details option"

record clientData_p1 =
  patterns_p1 :: "relevant_p1 pattern list"
  lastSeen_p1 :: int
  behaviorScore_p1 :: real

text \<open>
  \<open>analyzeTimingPatterns\<close> is only called on two or more events, so the interval list is
  not empty and neither division is by zero. (Called directly on fewer events the code
  divides zero by zero and returns \<open>NaN\<close>; the function below is meant for two or more
  events only.)
\<close>

definition analyzeTimingPatterns_p1 :: "'h pattern list \<Rightarrow> real" where
  "analyzeTimingPatterns_p1 ps =
     (let ivs = intervals ps;
          avgInterval = real_of_int (foldl (\<lambda>a b. a + b) 0 ivs) / real (length ivs);
          variability = foldl (\<lambda>acc i. acc + \<bar>real_of_int i - avgInterval\<bar>) 0 ivs
                          / real (length ivs)
      in min (variability / 1000) 1)"

definition validSequence_p1 :: "string \<Rightarrow> bool" where
  "validSequence_p1 p =
     (p = ''/'' \<or> p = ''/check-ip'' \<or> starts_with ''/loading'' p \<or> starts_with ''/review'' p)"

definition hasNormalNavigationFlow_p1 :: "string list \<Rightarrow> bool" where
  "hasNormalNavigationFlow_p1 paths =
     (let matchCount = length (filter validSequence_p1 paths)
      in real matchCount / real (length paths) \<ge> 0.7)"

definition analyzeNavigationPatterns_p1 :: "'h pattern list \<Rightarrow> real" where
  "analyzeNavigationPatterns_p1 ps =
     (let flows = map path ps;
          uniquePaths = length (remdups flows);
          score1 = (if uniquePaths = 1 \<and> length ps > 3 then 1 * 0.5 else 1)
      in if \<not> hasNormalNavigationFlow_p1 flows then score1 * 0.7 else score1)"

fun consistency_loop_p1 :: "('a relevant_p1_scheme) pattern list \<Rightarrow> real \<Rightarrow> real" where
  "consistency_loop_p1 (p # q # ps) consistency =
     (let prev = pattern_headers p; curr = pattern_headers q;
          c1 = (if language prev \<noteq> language curr then consistency * 0.8 else consistency);
          c2 = (if encoding prev \<noteq> encoding curr then c1 * 0.8 else c1)
      in consistency_loop_p1 (q # ps) c2)"
| "consistency_loop_p1 _ consistency = consistency"

definition analyzeHeaderConsistency_p1 :: "('a relevant_p1_scheme) pattern list \<Rightarrow> real" where
  "analyzeHeaderConsistency_p1 ps = consistency_loop_p1 ps 1"

definition analyzeBehaviorPatterns_p1 :: "relevant_p1 pattern list \<Rightarrow> analysis_p1" where
  "analyzeBehaviorPatterns_p1 ps =
     (if length ps < 2 then \<lparr>humanLike_p1 = True, confidence_p1 = 0.5, details_p1 = None\<rparr>
      else
        (let t = analyzeTimingPatterns_p1 ps;
             n = analyzeNavigationPatterns_p1 ps;
             hds = analyzeHeaderConsistency_p1 ps;
             c = (t + n + hds) / 3
         in \<lparr>humanLike_p1 = (c \<ge> 0.7), confidence_p1 = c,
             details_p1 = Some \<lparr>timing = t, navigation = n, headers_factor = hds\<rparr>\<rparr>))"

definition calculateBehaviorScore_p1 :: "analysis_p1 \<Rightarrow> real" where
  "calculateBehaviorScore_p1 a = confidence_p1 a * 100"

type_synonym cache_p1 = "(string \<times> clientData_p1) list"

definition analyze_p1 :: "int \<Rightarrow> request \<Rightarrow> string \<Rightarrow> cache_p1 \<Rightarrow> analysis_p1 \<times> cache_p1" where
  "analyze_p1 now req fingerprint bcache =
     (let clientData0 = (case map_get bcache fingerprint of
                           Some d \<Rightarrow> d
                         | None \<Rightarrow> \<lparr>patterns_p1 = [], lastSeen_p1 = now, behaviorScore_p1 = 0\<rparr>);
          pattern = \<lparr>timestamp = now, path = req_path req, pattern_method = req_method req,
                     pattern_headers = getRelevantHeaders_p1 (req_headers req)\<rparr>;
          pats = filter (\<lambda>p. now - timestamp p < PATTERN_MEMORY)
                   (patterns_p1 clientData0 @ [pattern]);
          a = analyzeBehaviorPatterns_p1 pats
      in (a, map_set fingerprint
               \<lparr>patterns_p1 = pats, lastSeen_p1 = now,
                behaviorScore_p1 = calculateBehaviorScore_p1 a\<rparr>
               bcache))"

section \<open>part_001: detectBot and the periodic cleanup\<close>

record state_p1 =
  behaviorCache_p1 :: cache_p1
  legitimateClients_p1 :: "nat set"

definition detectBot_p1 ::
  "(string \<Rightarrow> string) \<Rightarrow> int \<Rightarrow> request \<Rightarrow> state_p1 \<Rightarrow> verdict \<times> state_p1" where
  "detectBot_p1 h now req st =
     (let fingerprint = generateFingerprint_p1 h req
      in if req_ident req \<in> legitimateClients_p1 st then
           (\<lparr>isBot = False, v_confidence = 1, v_reason = None, v_score = None,
             v_details = None, v_fingerprint = None\<rparr>, st)
         else
           (let bc = validateBrowserEnvironment_p1 req
            in if \<not> valid_p1 bc then
                 (\<lparr>isBot = True, v_confidence = 0.9,
                   v_reason = Some invalid_browser_environment,
                   v_score = Some (score_p1 bc), v_details = None, v_fingerprint = None\<rparr>, st)
               else
                 (case analyze_p1 now req fingerprint (behaviorCache_p1 st) of
                    (b, cache') \<Rightarrow>
                      (let st' = st\<lparr>behaviorCache_p1 := cache'\<rparr>
                       in if \<not> humanLike_p1 b then
                            (\<lparr>isBot = True, v_confidence = confidence_p1 b,
                              v_reason = Some suspicious_behavior, v_score = None,
                              v_details = Some (BehaviorDetails (details_p1 b)),
                              v_fingerprint = None\<rparr>, st')
                          else
                            (\<lparr>isBot = False, v_confidence = confidence_p1 b,
                              v_reason = None, v_score = None, v_details = None,
                              v_fingerprint = Some fingerprint\<rparr>,
                             st'\<lparr>legitimateClients_p1 :=
                                   insert (req_ident req) (legitimateClients_p1 st')\<rparr>)))))"

text \<open>
  The \<open>setInterval\<close> callback: the loop visits the entries the Map held when it started,
  deleting from the Map each one whose \<open>lastSeen\<close> is more than \<open>PATTERN_MEMORY\<close> before
  \<open>now\<close>. antiBot.js declares \<open>CACHE_CLEANUP_INTERVAL\<close> but installs no such callback.
\<close>

fun cleanup_loop_p1 :: "int \<Rightarrow> cache_p1 \<Rightarrow> cache_p1 \<Rightarrow> cache_p1" where
  "cleanup_loop_p1 now [] bcache = bcache"
| "cleanup_loop_p1 now ((fingerprint, d) # entries) bcache =
     cleanup_loop_p1 now entries
       (if now - lastSeen_p1 d > PATTERN_MEMORY then map_delete fingerprint bcache
        else bcache)"

definition cleanup_p1 :: "int \<Rightarrow> cache_p1 \<Rightarrow> cache_p1" where
  "cleanup_p1 now bcache = cleanup_loop_p1 now bcache bcache"

section \<open>Sequences of analyze calls\<close>

text \<open>
  A call is the clock reading, the request and the fingerprint. \<open>run_p1\<close> threads the Map
  of part_001 through a list of calls; \<open>run\<close> does so for antiBot.js and is \<open>None\<close> as
  soon as one call raises, so \<open>Some\<close> stands for a sequence of successful calls.
\<close>

fun run_p1 :: "(int \<times> request \<times> string) list \<Rightarrow> cache_p1 \<Rightarrow> cache_p1" where
  "run_p1 [] c = c"
| "run_p1 ((now, req, fp) # calls) c = run_p1 calls (snd (analyze_p1 now req fp c))"

fun run ::
  "(relevant pattern list \<Rightarrow> error + real) \<Rightarrow> (analysis \<Rightarrow> error + real) \<Rightarrow>
   (int \<times> request \<times> string) list \<Rightarrow> cache \<Rightarrow> cache option" where
  "run ahc cbs [] c = Some c"
| "run ahc cbs ((now, req, fp) # calls) c =
     (case analyze ahc cbs now req fp c of
        (Inl e, c') \<Rightarrow> None
      | (Inr b, c') \<Rightarrow> run ahc cbs calls c')"

text \<open>An event list is ordered by time and holds no event later than \<open>T\<close>.\<close>

definition ordered_upto :: "int \<Rightarrow> 'h pattern list \<Rightarrow> bool" where
  "ordered_upto T ps = (sorted (map timestamp ps) \<and> (\<forall>p \<in> set ps. timestamp p \<le> T))"

definition cache_ordered_p1 :: "int \<Rightarrow> cache_p1 \<Rightarrow> bool" where
  "cache_ordered_p1 T c = (\<forall>e \<in> set c. ordered_upto T (patterns_p1 (snd e)))"

definition cache_ordered :: "int \<Rightarrow> cache \<Rightarrow> bool" where
  "cache_ordered T c = (\<forall>e \<in> set c. ordered_upto T (patterns (snd e)))"

text \<open>
  The two methods of part_001 that antiBot.js calls without declaring them, as values for
  the parameters \<open>ahc\<close> and \<open>cbs\<close>.
\<close>

definition ahc_p1 :: "relevant pattern list \<Rightarrow> error + real" where
  "ahc_p1 ps = Inr (analyzeHeaderConsistency_p1 ps)"

definition cbs_p1 :: "analysis \<Rightarrow> error + real" where
  "cbs_p1 a = Inr (confidence a * 100)"

section \<open>Concrete requests and profiles for the examples\<close>

definition chrome_ua :: string where
  "chrome_ua = ''Mozilla/5.0 (Windows NT 10.0; Win64; x64) Chrome/120.0.0.0 Safari/537.36''"

definition chrome_headers :: headers where
  "chrome_headers = map_of [(''user-agent'', chrome_ua)]"

definition chrome_request :: "string \<Rightarrow> nat \<Rightarrow> request" where
  "chrome_request p i =
     \<lparr>req_headers = chrome_headers, req_path = p, req_method = ''GET'',
      req_ip = None, req_ident = i\<rparr>"

definition bare_request :: request where
  "bare_request =
     \<lparr>req_headers = Map.empty, req_path = ''/'', req_method = ''GET'',
      req_ip = None, req_ident = 0\<rparr>"

definition cookie_request :: request where
  "cookie_request =
     \<lparr>req_headers = chrome_headers(''cookie'' \<mapsto> ''session=1''), req_path = ''/review'',
      req_method = ''POST'', req_ip = None, req_ident = 5\<rparr>"

definition chrome_event :: "int \<Rightarrow> string \<Rightarrow> relevant pattern" where
  "chrome_event t p =
     \<lparr>timestamp = t, path = p, pattern_method = ''GET'',
      pattern_headers = getRelevantHeaders chrome_headers\<rparr>"

definition event_p1 :: "int \<Rightarrow> string \<Rightarrow> relevant_p1 pattern" where
  "event_p1 t p =
     \<lparr>timestamp = t, path = p, pattern_method = ''GET'',
      pattern_headers = getRelevantHeaders_p1 chrome_headers\<rparr>"

definition chrome_profile :: "relevant pattern list \<Rightarrow> int \<Rightarrow> clientData" where
  "chrome_profile ps t = \<lparr>patterns = ps, lastSeen = t, behaviorScore = 70, cd_suspicious = 0\<rparr>"

definition two_calls :: "(int \<times> request \<times> string) list" where
  "two_calls = [(0, chrome_request ''/a'' 1, ''f'')]"

definition ordinary_headers :: headers where
  "ordinary_headers = map_of
     [(''user-agent'', chrome_ua),
      (''accept'', ''text/html,application/xhtml+xml''),
      (''accept-language'', ''en-US,en;q=0.9''),
      (''accept-encoding'', ''gzip, deflate, br''),
      (''sec-ch-ua'', CHR 0x22 # ''Chromium'' @ [CHR 0x22] @ '';v='' @ [CHR 0x22] @ ''120'' @ [CHR 0x22]),
      (''sec-ch-ua-platform'', CHR 0x22 # ''Windows'' @ [CHR 0x22]),
      (''sec-ch-ua-mobile'', ''?0''),
      (''sec-fetch-site'', ''none''),
      (''sec-fetch-mode'', ''navigate''),
      (''sec-fetch-dest'', ''document'')]"

definition ordinary_request :: "nat \<Rightarrow> request" where
  "ordinary_request i =
     \<lparr>req_headers = ordinary_headers, req_path = ''/'', req_method = ''GET'',
      req_ip = Some ''203.0.113.7'', req_ident = i\<rparr>"

definition empty_state_p1 :: state_p1 where
  "empty_state_p1 = \<lparr>behaviorCache_p1 = [], legitimateClients_p1 = {}\<rparr>"

definition first_visit_state_p1 :: state_p1 where
  "first_visit_state_p1 = snd (detectBot_p1 (\<lambda>s. s) 0 (ordinary_request 1) empty_state_p1)"

definition stale_cache :: cache_p1 where
  "stale_cache =
     [(''alpha'', \<lparr>patterns_p1 = [], lastSeen_p1 = 0, behaviorScore_p1 = 50\<rparr>),
      (''beta'', \<lparr>patterns_p1 = [], lastSeen_p1 = 200000, behaviorScore_p1 = 50\<rparr>)]"

section \<open>Evaluation lemmas\<close>

lemma sqrt_less_100: "sqrt v < 100 \<longleftrightarrow> v < 10000"
proof -
  have "sqrt 10000 = 100" using real_sqrt_abs [of 100] by simp
  then show ?thesis using real_sqrt_less_iff [of v 10000] by simp
qed

lemma analyzeTimingPatterns_code [code]:
  "analyzeTimingPatterns ps =
     (let ivs = intervals ps
      in if length ivs = 0 then 1
         else
           (let mean = real_of_int (foldl (\<lambda>a b. a + b) 0 ivs) / real (length ivs);
                variance = foldl (\<lambda>a b. a + (real_of_int b - mean)\<^sup>2) 0 ivs / real (length ivs);
                isRegular = (variance < 10000);
                hasTooFast = list_ex (\<lambda>i. i < 50) ivs
            in if isRegular \<and> hasTooFast then 0
               else if isRegular then 0.3
               else if hasTooFast then 0.5
               else 1))"
  by (simp add: analyzeTimingPatterns_def Let_def sqrt_less_100 list_ex_iff)

lemma env_score_headers:
  "req_headers r1 = req_headers r2 \<Longrightarrow>
   bc_score (validateBrowserEnvironment r1) = bc_score (validateBrowserEnvironment r2)"
  by (simp add: validateBrowserEnvironment_def Let_def)

lemma chrome_score0: "bc_score (validateBrowserEnvironment (chrome_request [] 0)) = 60"
  by code_simp

lemma chrome_score: "bc_score (validateBrowserEnvironment (chrome_request p i)) = 60"
  using env_score_headers [of "chrome_request p i" "chrome_request [] 0"] chrome_score0
  by (simp add: chrome_request_def)

lemma bare_score: "bc_score (validateBrowserEnvironment bare_request) = - 50"
  by code_simp

lemma bare_score_p1: "score_p1 (validateBrowserEnvironment_p1 bare_request) = 0"
  by code_simp

lemma chrome_request_event:
  "\<lparr>timestamp = t, path = req_path (chrome_request p i),
    pattern_method = req_method (chrome_request p i),
    pattern_headers = getRelevantHeaders (req_headers (chrome_request p i))\<rparr> = chrome_event t p"
  by (simp add: chrome_request_def chrome_event_def)

lemma timestamp_chrome_event: "timestamp (chrome_event t p) = t"
  by (simp add: chrome_event_def)

lemma flow_root_raises: "hasLogicalFlow [''/'', ''/check-ip''] = Inl TypeError"
  by code_simp

lemma root_history_raises:
  "analyzeBehaviorPatterns ahc [chrome_event 0 ''/'', chrome_event 1000 ''/check-ip'']
     = Inl TypeError"
  by (simp add: analyzeBehaviorPatterns_def analyzeNavigationPatterns_def chrome_event_def
        flow_root_raises Let_def del: hasLogicalFlow.simps)

section \<open>The JavaScript Map\<close>

lemma map_get_hd: "map_get ((k, v) # m) k = Some v"
  by (simp add: map_get_def)

lemma map_get_map_set: "map_get (map_set k v m) k' = (if k' = k then Some v else map_get m k')"
  by (induction m) (auto simp: map_get_def)

lemma cleanup_loop_filter:
  "cleanup_loop_p1 now es c =
     filter (\<lambda>e. \<not> (\<exists>e' \<in> set es. fst e' = fst e
                       \<and> now - lastSeen_p1 (snd e') > PATTERN_MEMORY)) c"
proof (induction es arbitrary: c)
  case Nil
  then show ?case by simp
next
  case (Cons a es)
  obtain k d where a: "a = (k, d)" by (cases a)
  show ?case
    unfolding a by (auto simp: Cons.IH map_delete_def intro!: filter_cong)
qed

lemma map_get_None_iff: "map_get c k = None \<longleftrightarrow> k \<notin> fst ` set c"
  by (simp add: map_get_def map_of_eq_None_iff)

lemma map_get_SomeD: "map_get c k = Some d \<Longrightarrow> (k, d) \<in> set c"
  by (simp add: map_get_def map_of_SomeD)

lemma map_get_filter_keep:
  assumes "map_get c k = Some d" and "\<And>v. P (k, v)"
  shows "map_get (filter P c) k = Some d"
  using assms(1) unfolding map_get_def
proof (induction c)
  case Nil
  then show ?case by simp
next
  case (Cons a c)
  then show ?case using assms(2) by (cases a) (simp split: if_splits)
qed

lemma cleanup_keeps_or_deletes:
  assumes "distinct (map fst c)"
  shows "map_get (cleanup_p1 now c) fp =
           (case map_get c fp of None \<Rightarrow> None
            | Some d \<Rightarrow> if now - lastSeen_p1 d > PATTERN_MEMORY then None else Some d)"
proof (cases "map_get c fp")
  case None
  then have "fp \<notin> fst ` set c" by (simp add: map_get_None_iff)
  then have "fp \<notin> fst ` set (cleanup_p1 now c)"
    by (auto simp: cleanup_p1_def cleanup_loop_filter)
  then have "map_get (cleanup_p1 now c) fp = None" by (simp add: map_get_None_iff)
  with None show ?thesis by simp
next
  case (Some d)
  then have mem: "(fp, d) \<in> set c" by (rule map_get_SomeD)
  show ?thesis
  proof (cases "now - lastSeen_p1 d > PATTERN_MEMORY")
    case True
    have "fp \<notin> fst ` set (cleanup_p1 now c)"
      using mem True by (auto simp: cleanup_p1_def cleanup_loop_filter)
    then have "map_get (cleanup_p1 now c) fp = None" by (simp add: map_get_None_iff)
    with Some True show ?thesis by simp
  next
    case False
    have uniq: "snd e' = d" if "e' \<in> set c" and "fst e' = fp" for e'
    proof -
      from that have "(fp, snd e') \<in> set c" by (metis prod.collapse)
      from eq_key_imp_eq_value [OF assms this mem] show ?thesis .
    qed
    have keep: "\<not> (\<exists>e' \<in> set c. fst e' = fst (fp, v)
                     \<and> now - lastSeen_p1 (snd e') > PATTERN_MEMORY)" for v
      using uniq False by auto
    have "map_get (cleanup_p1 now c) fp = Some d"
      unfolding cleanup_p1_def cleanup_loop_filter
      by (rule map_get_filter_keep [OF Some]) (rule keep)
    then show ?thesis using Some False by simp
  qed
qed

section \<open>The events that analyze keeps\<close>

lemma chrome_request_event_p1:
  "\<lparr>timestamp = t, path = req_path (chrome_request p i),
    pattern_method = req_method (chrome_request p i),
    pattern_headers = getRelevantHeaders_p1 (req_headers (chrome_request p i))\<rparr> = event_p1 t p"
  by (simp add: chrome_request_def event_p1_def)

lemma timestamp_event_p1: "timestamp (event_p1 t p) = t"
  by (simp add: event_p1_def)

lemma analyze_p1_patterns:
  "\<exists>d. map_get (snd (analyze_p1 now req fp c)) fp = Some d
       \<and> patterns_p1 d =
           filter (\<lambda>p. now - timestamp p < PATTERN_MEMORY)
             (patterns_p1 (case map_get c fp of Some d \<Rightarrow> d
                 | None \<Rightarrow> \<lparr>patterns_p1 = [], lastSeen_p1 = now, behaviorScore_p1 = 0\<rparr>)
              @ [\<lparr>timestamp = now, path = req_path req, pattern_method = req_method req,
                  pattern_headers = getRelevantHeaders_p1 (req_headers req)\<rparr>])
       \<and> lastSeen_p1 d = now"
  by (simp add: analyze_p1_def Let_def map_get_map_set)

lemma analyze_patterns:
  assumes "map_get (snd (analyze ahc cbs now req fp c)) fp = Some d"
  shows "patterns d =
           filter (\<lambda>p. now - timestamp p < PATTERN_MEMORY)
             (patterns (case map_get c fp of Some d \<Rightarrow> d
                 | None \<Rightarrow> \<lparr>patterns = [], lastSeen = now, behaviorScore = 0, cd_suspicious = 0\<rparr>)
              @ [\<lparr>timestamp = now, path = req_path req, pattern_method = req_method req,
                  pattern_headers = getRelevantHeaders (req_headers req)\<rparr>])"
  using assms
  by (auto simp: analyze_def Let_def map_get_map_set split: sum.splits option.splits)

section \<open>The order of the stored events\<close>

lemma ordered_upto_mono: "ordered_upto T ps \<Longrightarrow> T \<le> T' \<Longrightarrow> ordered_upto T' ps"
  by (auto simp: ordered_upto_def)

lemma ordered_upto_push:
  assumes "ordered_upto T ps" and "T \<le> now" and "timestamp e = now"
  shows "ordered_upto now (filter (\<lambda>p. now - timestamp p < PATTERN_MEMORY) (ps @ [e]))"
    and "filter (\<lambda>p. now - timestamp p < PATTERN_MEMORY) (ps @ [e])
           = filter (\<lambda>p. now - timestamp p < PATTERN_MEMORY) ps @ [e]"
proof -
  have s: "sorted (map timestamp (ps @ [e]))"
    using assms by (auto simp: ordered_upto_def sorted_append)
  have "sorted (map timestamp (filter (\<lambda>p. now - timestamp p < PATTERN_MEMORY) (ps @ [e])))"
    by (rule sorted_filter [OF s])
  moreover have "\<forall>p \<in> set (ps @ [e]). timestamp p \<le> now"
    using assms by (auto simp: ordered_upto_def)
  ultimately show "ordered_upto now (filter (\<lambda>p. now - timestamp p < PATTERN_MEMORY) (ps @ [e]))"
    by (auto simp: ordered_upto_def)
  show "filter (\<lambda>p. now - timestamp p < PATTERN_MEMORY) (ps @ [e])
           = filter (\<lambda>p. now - timestamp p < PATTERN_MEMORY) ps @ [e]"
    using assms(3) by (simp add: PATTERN_MEMORY_def)
qed

lemma set_map_set: "set (map_set k v m) \<subseteq> insert (k, v) (set m)"
  by (induction m) (auto split: if_splits)

lemma map_get_ordered_p1:
  "cache_ordered_p1 T c \<Longrightarrow>
   ordered_upto T (patterns_p1 (case map_get c fp of Some d \<Rightarrow> d
      | None \<Rightarrow> \<lparr>patterns_p1 = [], lastSeen_p1 = now, behaviorScore_p1 = 0\<rparr>))"
proof (cases "map_get c fp")
  case None
  then show ?thesis by (simp add: ordered_upto_def)
next
  case (Some d)
  assume "cache_ordered_p1 T c"
  with map_get_SomeD [OF Some] have "ordered_upto T (patterns_p1 (snd (fp, d)))"
    unfolding cache_ordered_p1_def by blast
  with Some show ?thesis by simp
qed

lemma map_get_ordered:
  "cache_ordered T c \<Longrightarrow>
   ordered_upto T (patterns (case map_get c fp of Some d \<Rightarrow> d
      | None \<Rightarrow> \<lparr>patterns = [], lastSeen = now, behaviorScore = 0, cd_suspicious = 0\<rparr>))"
proof (cases "map_get c fp")
  case None
  then show ?thesis by (simp add: ordered_upto_def)
next
  case (Some d)
  assume "cache_ordered T c"
  with map_get_SomeD [OF Some] have "ordered_upto T (patterns (snd (fp, d)))"
    unfolding cache_ordered_def by blast
  with Some show ?thesis by simp
qed

lemma analyze_p1_step:
  assumes inv: "cache_ordered_p1 T c" and le: "T \<le> now"
  shows "cache_ordered_p1 now (snd (analyze_p1 now req fp c))"
    and "\<exists>d. map_get (snd (analyze_p1 now req fp c)) fp = Some d
           \<and> sorted (map timestamp (patterns_p1 d))
           \<and> patterns_p1 d \<noteq> []
           \<and> last (patterns_p1 d) =
               \<lparr>timestamp = now, path = req_path req, pattern_method = req_method req,
                pattern_headers = getRelevantHeaders_p1 (req_headers req)\<rparr>
           \<and> lastSeen_p1 d = now"
proof -
  let ?e = "\<lparr>timestamp = now, path = req_path req, pattern_method = req_method req,
             pattern_headers = getRelevantHeaders_p1 (req_headers req)\<rparr>"
  let ?old = "patterns_p1 (case map_get c fp of Some d \<Rightarrow> d
      | None \<Rightarrow> \<lparr>patterns_p1 = [], lastSeen_p1 = now, behaviorScore_p1 = 0\<rparr>)"
  let ?new = "filter (\<lambda>p. now - timestamp p < PATTERN_MEMORY) (?old @ [?e])"
  have old: "ordered_upto T ?old" by (rule map_get_ordered_p1 [OF inv])
  have te: "timestamp ?e = now" by simp
  note push = ordered_upto_push [OF old le te]
  obtain d where d: "map_get (snd (analyze_p1 now req fp c)) fp = Some d"
    and pd: "patterns_p1 d = ?new" and ls: "lastSeen_p1 d = now"
    using analyze_p1_patterns [of now req fp c] by blast
  have mem: "set (snd (analyze_p1 now req fp c)) \<subseteq> insert (fp, d) (set c)"
  proof -
    have "snd (analyze_p1 now req fp c) = map_set fp d' c" if "map_get (snd (analyze_p1 now req fp c)) fp = Some d'" for d'
      using that by (simp add: analyze_p1_def Let_def map_get_map_set)
    from this [OF d] show ?thesis using set_map_set [of fp d c] by simp
  qed
  have others: "\<forall>e \<in> set c. ordered_upto now (patterns_p1 (snd e))"
    using inv le unfolding cache_ordered_p1_def by (blast intro: ordered_upto_mono)
  have mine: "ordered_upto now (patterns_p1 d)" using push(1) pd by simp
  show "cache_ordered_p1 now (snd (analyze_p1 now req fp c))"
    unfolding cache_ordered_p1_def using mem others mine by auto
  have "sorted (map timestamp (patterns_p1 d))" using mine by (simp add: ordered_upto_def)
  moreover have "patterns_p1 d \<noteq> []" "last (patterns_p1 d) = ?e"
    using pd push(2) by simp_all
  ultimately show "\<exists>d. map_get (snd (analyze_p1 now req fp c)) fp = Some d
           \<and> sorted (map timestamp (patterns_p1 d))
           \<and> patterns_p1 d \<noteq> []
           \<and> last (patterns_p1 d) = ?e
           \<and> lastSeen_p1 d = now"
    using d ls by blast
qed

lemma run_p1_append: "run_p1 (xs @ ys) c = run_p1 ys (run_p1 xs c)"
  by (induction xs arbitrary: c) auto

lemma run_p1_ordered:
  "cache_ordered_p1 T c \<Longrightarrow> sorted (T # map fst calls) \<Longrightarrow>
   cache_ordered_p1 (last (T # map fst calls)) (run_p1 calls c)"
proof (induction calls arbitrary: T c)
  case Nil
  then show ?case by simp
next
  case (Cons a calls)
  obtain now req fp where a: "a = (now, req, fp)" by (cases a)
  from Cons.prems(2) have le: "T \<le> now" and s: "sorted (now # map fst calls)"
    by (simp_all add: a)
  have "cache_ordered_p1 now (snd (analyze_p1 now req fp c))"
    by (rule analyze_p1_step(1) [OF Cons.prems(1) le])
  from Cons.IH [OF this s] show ?case by (simp add: a)
qed

lemma analyze_success:
  assumes "analyze ahc cbs now req fp c = (Inr b, c')"
  shows "\<exists>d. c' = map_set fp d c
           \<and> patterns d =
               filter (\<lambda>p. now - timestamp p < PATTERN_MEMORY)
                 (patterns (case map_get c fp of Some d \<Rightarrow> d
                    | None \<Rightarrow> \<lparr>patterns = [], lastSeen = now, behaviorScore = 0,
                                cd_suspicious = 0\<rparr>)
                  @ [\<lparr>timestamp = now, path = req_path req, pattern_method = req_method req,
                      pattern_headers = getRelevantHeaders (req_headers req)\<rparr>])
           \<and> lastSeen d = now"
  using assms
  by (auto simp: analyze_def Let_def split: sum.splits)

lemma analyze_step:
  assumes inv: "cache_ordered T c" and le: "T \<le> now"
    and ok: "analyze ahc cbs now req fp c = (Inr b, c')"
  shows "cache_ordered now c'"
    and "\<exists>d. map_get c' fp = Some d
           \<and> sorted (map timestamp (patterns d))
           \<and> patterns d \<noteq> []
           \<and> last (patterns d) =
               \<lparr>timestamp = now, path = req_path req, pattern_method = req_method req,
                pattern_headers = getRelevantHeaders (req_headers req)\<rparr>
           \<and> lastSeen d = now"
proof -
  let ?e = "\<lparr>timestamp = now, path = req_path req, pattern_method = req_method req,
             pattern_headers = getRelevantHeaders (req_headers req)\<rparr>"
  let ?old = "patterns (case map_get c fp of Some d \<Rightarrow> d
      | None \<Rightarrow> \<lparr>patterns = [], lastSeen = now, behaviorScore = 0, cd_suspicious = 0\<rparr>)"
  let ?new = "filter (\<lambda>p. now - timestamp p < PATTERN_MEMORY) (?old @ [?e])"
  have old: "ordered_upto T ?old" by (rule map_get_ordered [OF inv])
  have te: "timestamp ?e = now" by simp
  note push = ordered_upto_push [OF old le te]
  obtain d where c': "c' = map_set fp d c" and pd: "patterns d = ?new" and ls: "lastSeen d = now"
    using analyze_success [OF ok] by blast
  have d: "map_get c' fp = Some d" by (simp add: c' map_get_map_set)
  have mem: "set c' \<subseteq> insert (fp, d) (set c)"
    unfolding c' by (rule set_map_set)
  have others: "\<forall>e \<in> set c. ordered_upto now (patterns (snd e))"
    using inv le unfolding cache_ordered_def by (blast intro: ordered_upto_mono)
  have mine: "ordered_upto now (patterns d)" using push(1) pd by simp
  show "cache_ordered now c'"
    unfolding cache_ordered_def using mem others mine by auto
  have "sorted (map timestamp (patterns d))" using mine by (simp add: ordered_upto_def)
  moreover have "patterns d \<noteq> []" "last (patterns d) = ?e"
    using pd push(2) by simp_all
  ultimately show "\<exists>d. map_get c' fp = Some d
           \<and> sorted (map timestamp (patterns d))
           \<and> patterns d \<noteq> []
           \<and> last (patterns d) = ?e
           \<and> lastSeen d = now"
    using d ls by blast
qed

lemma run_append:
  "run ahc cbs (xs @ ys) c = (case run ahc cbs xs c of None \<Rightarrow> None | Some c' \<Rightarrow> run ahc cbs ys c')"
  by (induction xs arbitrary: c) (auto split: sum.splits prod.splits)

lemma run_ordered:
  "cache_ordered T c \<Longrightarrow> sorted (T # map fst calls) \<Longrightarrow> run ahc cbs calls c = Some c' \<Longrightarrow>
   cache_ordered (last (T # map fst calls)) c'"
proof (induction calls arbitrary: T c)
  case Nil
  then show ?case by simp
next
  case (Cons a calls)
  obtain now req fp where a: "a = (now, req, fp)" by (cases a)
  from Cons.prems(2) have le: "T \<le> now" and s: "sorted (now # map fst calls)"
    by (simp_all add: a)
  from Cons.prems(3) obtain b c1 where ok: "analyze ahc cbs now req fp c = (Inr b, c1)"
    and rest: "run ahc cbs calls c1 = Some c'"
    by (auto simp: a split: sum.splits prod.splits)
  have "cache_ordered now c1"
    by (rule analyze_step(1) [OF Cons.prems(1) le ok])
  from Cons.IH [OF this s rest] show ?case by (simp add: a)
qed

lemma sorted_calls_bound:
  assumes "sorted (map fst (calls @ [(now, req, fp)]))"
  shows "\<exists>T. sorted (T # map fst calls) \<and> last (T # map fst calls) \<le> now"
proof (cases calls)
  case Nil
  then show ?thesis by (intro exI [of _ now]) simp
next
  case (Cons a list)
  have s: "sorted (map fst calls)" and b: "\<forall>t \<in> set (map fst calls). t \<le> now"
    using assms by (simp_all add: sorted_append)
  have "last (map fst calls) \<in> set (map fst calls)" using Cons by (intro last_in_set) simp
  with b have "last (map fst calls) \<le> now" by blast
  moreover have "sorted (fst a # map fst calls)" using s Cons by simp
  ultimately show ?thesis using Cons by (intro exI [of _ "fst a"]) simp
qed

lemma two_calls_run: "run ahc_p1 cbs_p1 (two_calls @ [(1000, chrome_request ''/b'' 2, ''f'')]) [] \<noteq> None"
  by code_simp

section \<open>Bounds of the behaviour confidence\<close>

text \<open>
  Where \<open>analyzeBehaviorPatterns\<close> returns, its confidence lies in \<open>[0, 1]\<close>: always in
  part_001, and in antiBot.js whenever the header factor does. Fewer than two events give
  the neutral default.
\<close>

lemma foldl_abs_nonneg: "0 \<le> acc \<Longrightarrow> 0 \<le> foldl (\<lambda>acc i. acc + \<bar>real_of_int i - m\<bar>) acc ivs"
  by (induction ivs arbitrary: acc) simp_all

lemma analyzeTimingPatterns_p1_bounds:
  "0 \<le> analyzeTimingPatterns_p1 ps \<and> analyzeTimingPatterns_p1 ps \<le> 1"
proof -
  have f: "0 \<le> foldl (\<lambda>acc i. acc + \<bar>real_of_int i - m\<bar>) 0 ivs" for m ivs
    using foldl_abs_nonneg [of 0 m ivs] by simp
  have "0 \<le> foldl (\<lambda>acc i. acc + \<bar>real_of_int i - m\<bar>) 0 ivs / real (length ivs) / 1000"
    for m ivs
    by (intro divide_nonneg_nonneg f) simp_all
  then show ?thesis by (simp add: analyzeTimingPatterns_p1_def Let_def)
qed

lemma analyzeNavigationPatterns_p1_bounds:
  "0 \<le> analyzeNavigationPatterns_p1 ps \<and> analyzeNavigationPatterns_p1 ps \<le> 1"
  by (simp add: analyzeNavigationPatterns_p1_def Let_def)

lemma consistency_loop_p1_bounds:
  "0 \<le> c \<Longrightarrow> 0 \<le> consistency_loop_p1 ps c \<and> consistency_loop_p1 ps c \<le> c"
proof (induction ps c rule: consistency_loop_p1.induct)
  case (1 p q ps consistency)
  let ?c1 = "if language (pattern_headers p) \<noteq> language (pattern_headers q)
             then consistency * 0.8 else consistency"
  let ?c2 = "if encoding (pattern_headers p) \<noteq> encoding (pattern_headers q)
             then ?c1 * 0.8 else ?c1"
  from "1.prems" have c2: "0 \<le> ?c2" "?c2 \<le> consistency" by auto
  from "1.IH" [OF refl refl refl refl c2(1)] c2(2) show ?case
    by (simp add: Let_def del: consistency_loop_p1.simps(2-))
qed simp_all

lemma analyzeHeaderConsistency_p1_bounds:
  "0 \<le> analyzeHeaderConsistency_p1 ps \<and> analyzeHeaderConsistency_p1 ps \<le> 1"
  using consistency_loop_p1_bounds [of 1 ps] by (simp add: analyzeHeaderConsistency_p1_def)

lemma analyzeBehaviorPatterns_p1_confidence:
  "0 \<le> confidence_p1 (analyzeBehaviorPatterns_p1 ps)
   \<and> confidence_p1 (analyzeBehaviorPatterns_p1 ps) \<le> 1
   \<and> (length ps < 2 \<longrightarrow> confidence_p1 (analyzeBehaviorPatterns_p1 ps) = 0.5)"
  using analyzeTimingPatterns_p1_bounds [of ps] analyzeNavigationPatterns_p1_bounds [of ps]
    analyzeHeaderConsistency_p1_bounds [of ps]
  by (simp add: analyzeBehaviorPatterns_p1_def Let_def)

lemma analyzeTimingPatterns_bounds:
  "0 \<le> analyzeTimingPatterns ps \<and> analyzeTimingPatterns ps \<le> 1"
  by (simp add: analyzeTimingPatterns_def Let_def)

lemma calculateRepetition_bounds: "0 \<le> calculateRepetition paths \<and> calculateRepetition paths \<le> 1"
  by (simp add: calculateRepetition_def)

lemma analyzeNavigationPatterns_bounds:
  assumes "analyzeNavigationPatterns ps = Inr n"
  shows "0 \<le> n \<and> n \<le> 1"
proof -
  let ?r = "calculateRepetition (map path ps)"
  from assms have "n = 1 - ?r \<or> n = (1 - ?r) * 0.7"
    by (auto simp: analyzeNavigationPatterns_def Let_def split: sum.splits if_splits)
  with calculateRepetition_bounds [of "map path ps"] show ?thesis by auto
qed

lemma analyzeBehaviorPatterns_confidence:
  assumes "analyzeBehaviorPatterns ahc ps = Inr a"
    and "\<And>hf. ahc ps = Inr hf \<Longrightarrow> 0 \<le> hf \<and> hf \<le> 1"
  shows "0 \<le> confidence a \<and> confidence a \<le> 1"
proof (cases "length ps < 2")
  case True
  with assms(1) show ?thesis by (auto simp: analyzeBehaviorPatterns_def)
next
  case False
  with assms(1) obtain n hf where n: "analyzeNavigationPatterns ps = Inr n"
    and hf: "ahc ps = Inr hf"
    and c: "confidence a = analyzeTimingPatterns ps * 0.3 + n * 0.4 + hf * 0.3"
    by (auto simp: analyzeBehaviorPatterns_def Let_def split: sum.splits)
  from analyzeTimingPatterns_bounds [of ps] analyzeNavigationPatterns_bounds [OF n] assms(2) [OF hf] c
  show ?thesis by simp
qed

lemma analyzeBehaviorPatterns_default:
  "length ps < 2 \<Longrightarrow>
   analyzeBehaviorPatterns ahc ps =
     Inr \<lparr>confidence = 0.7, suspicious = 0,
          analysis_details = \<lparr>timing = 1, navigation = 1, headers_factor = 1\<rparr>\<rparr>"
  by (simp add: analyzeBehaviorPatterns_def)

section \<open>Bounds of the environment score\<close>

lemma calculateHeaderScore_bounds: "0 \<le> calculateHeaderScore hs \<and> calculateHeaderScore hs \<le> 65
   \<and> (truthy (hs ''user-agent'') \<longrightarrow> 20 \<le> calculateHeaderScore hs)"
  by (simp add: calculateHeaderScore_def)

lemma analyzeUserAgent_bounds: "- 50 \<le> analyzeUserAgent ua \<and> analyzeUserAgent ua \<le> 40
   \<and> (truthy ua \<longrightarrow> 0 \<le> analyzeUserAgent ua)"
  by (simp add: analyzeUserAgent_def Let_def)

lemma checkConsistency_bounds: "0 \<le> checkConsistency hs \<and> checkConsistency hs \<le> 50"
  by (simp add: checkConsistency_def Let_def)

lemma indicator_penalty_bounds:
  "s - 50 * int (length xs) \<le> indicator_penalty ua xs s \<and> indicator_penalty ua xs s \<le> s"
proof (induction xs arbitrary: s)
  case Nil
  then show ?case by simp
next
  case (Cons x xs)
  show ?case using Cons.IH [of "s - 50"] Cons.IH [of s] by auto
qed

lemma no_indicator_in_empty: "indicator_penalty [] botIndicators 0 = 0"
  by code_simp

lemma validateSpecialHeaders_bounds:
  "- 630 \<le> validateSpecialHeaders hs \<and> validateSpecialHeaders hs \<le> 0
   \<and> (\<not> truthy (hs ''user-agent'') \<longrightarrow> - 30 \<le> validateSpecialHeaders hs)"
proof -
  have len: "length botIndicators = 12" by (simp add: botIndicators_def)
  have e: "\<not> truthy (hs ''user-agent'') \<Longrightarrow> or_empty (map_option toLowerCase (hs ''user-agent'')) = []"
    by (auto simp: truthy_def or_empty_def toLowerCase_def split: option.splits)
  show ?thesis
    using indicator_penalty_bounds [of 0 botIndicators "or_empty (map_option toLowerCase (hs ''user-agent''))"]
    by (auto simp: validateSpecialHeaders_def Let_def len e no_indicator_in_empty)
qed

lemma required_score_bounds:
  "s \<le> required_score_p1 hs xs s \<and> required_score_p1 hs xs s \<le> s + 15 * int (length xs)"
proof (induction xs arbitrary: s)
  case Nil
  then show ?case by simp
next
  case (Cons x xs)
  show ?case using Cons.IH [of "s + 10 + 5"] Cons.IH [of "s + 10"] Cons.IH [of s] by auto
qed

lemma analyzeUserAgent_p1_bounds: "0 \<le> analyzeUserAgent_p1 ua \<and> analyzeUserAgent_p1 ua \<le> 50"
  by (simp add: analyzeUserAgent_p1_def)

section \<open>Claims\<close>

text \<open>
  C1 (the claim fails on antiBot.js). The claim says that no operation of the detection
  core raises. In antiBot.js, \<open>hasLogicalFlow\<close> raises a TypeError on the path history
  \<open>['/', '/check-ip']\<close>: the first allowed flow \<open>['/']\<close> has one element, it accepts the
  first path, and \<open>flow[1]\<close> is \<open>undefined\<close>. So \<open>detectBot\<close> raises on the second request of
  a client that visited \<open>/\<close>, whatever the two undeclared methods do; and with the two
  methods undefined, as the file stands, \<open>detectBot\<close> raises on the first request of any
  client that passes the environment check.
\<close>

theorem detectBot_raises_TypeError:
  "hasLogicalFlow [''/'', ''/check-ip''] = Inl TypeError
   \<and> fst (detectBot h ahc cbs 1000 (chrome_request ''/check-ip'' i)
           \<lparr>behaviorCache = [(generateFingerprint h (chrome_request ''/check-ip'' i),
                               chrome_profile [chrome_event 0 ''/''] 0)],
            legitimateClients = {}\<rparr>) = Inl TypeError
   \<and> fst (detectBot h not_a_function not_a_function now (chrome_request ''/'' i)
           \<lparr>behaviorCache = [], legitimateClients = {}\<rparr>) = Inl TypeError"
proof (intro conjI)
  show "hasLogicalFlow [''/'', ''/check-ip''] = Inl TypeError"
    by (rule flow_root_raises)
  show "fst (detectBot h ahc cbs 1000 (chrome_request ''/check-ip'' i)
           \<lparr>behaviorCache = [(generateFingerprint h (chrome_request ''/check-ip'' i),
                               chrome_profile [chrome_event 0 ''/''] 0)],
            legitimateClients = {}\<rparr>) = Inl TypeError"
    by (simp add: detectBot_def chrome_score analyze_def map_get_hd Let_def
          chrome_request_event chrome_profile_def timestamp_chrome_event
          PATTERN_MEMORY_def root_history_raises)
  show "fst (detectBot h not_a_function not_a_function now (chrome_request ''/'' i)
           \<lparr>behaviorCache = [], legitimateClients = {}\<rparr>) = Inl TypeError"
    by (simp add: detectBot_def chrome_score analyze_def map_get_def
          analyzeBehaviorPatterns_def not_a_function_def Let_def PATTERN_MEMORY_def)
qed

text \<open>
  C2. The fingerprint is a function of the selected header values (and, in antiBot.js, of
  the remote address) alone: two requests that agree on them get the same token, in both
  revisions, whatever else differs; it takes no state. Falsy components are dropped, and
  when every component is falsy the token is the digest of the empty string.
\<close>

theorem generateFingerprint_deterministic:
  assumes "\<forall>k \<in> set (fingerprint_headers @ fingerprint_headers_p1).
             req_headers r1 k = req_headers r2 k"
    and "req_ip r1 = req_ip r2"
  shows "generateFingerprint h r1 = generateFingerprint h r2
       \<and> generateFingerprint_p1 h r1 = generateFingerprint_p1 h r2
       \<and> ((\<forall>c \<in> set (fingerprint_components r1). \<not> truthy c)
             \<longrightarrow> generateFingerprint h r1 = h [])
       \<and> ((\<forall>c \<in> set (fingerprint_components_p1 r1). \<not> truthy c)
             \<longrightarrow> generateFingerprint_p1 h r1 = h [])"
proof -
  have m: "map (req_headers r1) fingerprint_headers = map (req_headers r2) fingerprint_headers"
    using assms(1) by simp
  have m1: "map (req_headers r1) fingerprint_headers_p1
              = map (req_headers r2) fingerprint_headers_p1"
    using assms(1) by simp
  have "generateFingerprint h r1 = generateFingerprint h r2"
    by (simp add: generateFingerprint_def fingerprint_components_def m assms(2))
  moreover have "generateFingerprint_p1 h r1 = generateFingerprint_p1 h r2"
    by (simp add: generateFingerprint_p1_def fingerprint_components_p1_def m1)
  moreover have "(\<forall>c \<in> set (fingerprint_components r1). \<not> truthy c)
                   \<longrightarrow> generateFingerprint h r1 = h []"
    by (simp add: generateFingerprint_def filter_False)
  moreover have "(\<forall>c \<in> set (fingerprint_components_p1 r1). \<not> truthy c)
                   \<longrightarrow> generateFingerprint_p1 h r1 = h []"
    by (simp add: generateFingerprint_p1_def filter_False)
  ultimately show ?thesis by blast
qed

theorem generateFingerprint_deterministic_witness:
  "generateFingerprint (\<lambda>s. s) (chrome_request ''/'' 1) = generateFingerprint (\<lambda>s. s) cookie_request
   \<and> generateFingerprint_p1 (\<lambda>s. s) (chrome_request ''/'' 1) = generateFingerprint_p1 (\<lambda>s. s) cookie_request
   \<and> generateFingerprint (\<lambda>s. s) bare_request = []
   \<and> generateFingerprint_p1 (\<lambda>s. s) bare_request = []"
proof -
  have a: "\<forall>k \<in> set (fingerprint_headers @ fingerprint_headers_p1).
             req_headers (chrome_request ''/'' 1) k = req_headers cookie_request k"
    by (simp add: fingerprint_headers_def fingerprint_headers_p1_def chrome_request_def cookie_request_def)
  have b: "req_ip (chrome_request ''/'' 1) = req_ip cookie_request"
    by (simp add: chrome_request_def cookie_request_def)
  have c: "\<forall>k \<in> set (fingerprint_headers @ fingerprint_headers_p1).
             req_headers bare_request k = req_headers bare_request k" by simp
  have d: "\<forall>c \<in> set (fingerprint_components bare_request). \<not> truthy c"
    by (simp add: fingerprint_components_def bare_request_def truthy_def)
  have e: "\<forall>c \<in> set (fingerprint_components_p1 bare_request). \<not> truthy c"
    by (simp add: fingerprint_components_p1_def bare_request_def truthy_def)
  show ?thesis
    using generateFingerprint_deterministic [OF a b, of "\<lambda>s. s"]
      generateFingerprint_deterministic [OF c refl, of "\<lambda>s. s"] d e
    by blast
qed

text \<open>
  C5. Eviction liveness (part_001): a profile whose \<open>lastSeen\<close> is more than
  \<open>PATTERN_MEMORY\<close> (5 minutes) before \<open>now\<close> is not in the Map after one run of the cleanup
  callback at \<open>now\<close>, whatever else the Map holds.
\<close>

theorem cleanup_removes_stale:
  assumes "map_get c fp = Some d" and "now - lastSeen_p1 d > PATTERN_MEMORY"
  shows "map_get (cleanup_p1 now c) fp = None"
proof -
  from assms(1) have mem: "(fp, d) \<in> set c" by (simp add: map_get_def map_of_SomeD)
  have "fp \<notin> fst ` set (cleanup_p1 now c)"
    using mem assms(2) by (auto simp: cleanup_p1_def cleanup_loop_filter)
  then show ?thesis by (simp add: map_get_def map_of_eq_None_iff)
qed

theorem cleanup_removes_stale_witness:
  "map_get stale_cache ''alpha'' = Some \<lparr>patterns_p1 = [], lastSeen_p1 = 0, behaviorScore_p1 = 50\<rparr>
   \<and> 300001 - lastSeen_p1 \<lparr>patterns_p1 = [], lastSeen_p1 = 0, behaviorScore_p1 = 50\<rparr> > PATTERN_MEMORY
   \<and> map_get (cleanup_p1 300001 stale_cache) ''alpha'' = None
   \<and> map_get (cleanup_p1 300001 stale_cache) ''beta'' \<noteq> None"
proof -
  have a: "map_get stale_cache ''alpha'' = Some \<lparr>patterns_p1 = [], lastSeen_p1 = 0, behaviorScore_p1 = 50\<rparr>"
    by (simp add: stale_cache_def map_get_def)
  have b: "300001 - lastSeen_p1 \<lparr>patterns_p1 = [], lastSeen_p1 = 0, behaviorScore_p1 = 50\<rparr> > PATTERN_MEMORY"
    by (simp add: PATTERN_MEMORY_def)
  have c: "map_get (cleanup_p1 300001 stale_cache) ''beta'' \<noteq> None"
    by (simp add: cleanup_p1_def stale_cache_def map_delete_def map_get_def PATTERN_MEMORY_def)
  show ?thesis using cleanup_removes_stale [OF a b] a b c by simp
qed

text \<open>
  C6. When the request object is not marked legitimate and the environment score is below
  the hard-fail threshold (20 in antiBot.js, the validity threshold 70 in part_001),
  \<open>detectBot\<close> returns \<open>isBot = true\<close>, confidence 0.95 (0.9 in part_001) and the reason
  \<open>invalid_browser_environment\<close>; the result does not depend on the clock or on the
  behaviour analysis, and the state is returned unchanged.
\<close>

theorem invalid_environment_verdict:
  "(req_ident req \<notin> legitimateClients st \<and> bc_score (validateBrowserEnvironment req) < 20 \<longrightarrow>
      detectBot h ahc cbs now req st =
        (Inr \<lparr>isBot = True, v_confidence = 0.95, v_reason = Some invalid_browser_environment,
              v_score = Some (bc_score (validateBrowserEnvironment req)),
              v_details = Some (BrowserDetails (req_headers req ''user-agent'')
                                  (bc_score (validateBrowserEnvironment req))),
              v_fingerprint = None\<rparr>, st))
   \<and> (req_ident req \<notin> legitimateClients_p1 st1 \<and> score_p1 (validateBrowserEnvironment_p1 req) < 70 \<longrightarrow>
      detectBot_p1 h now req st1 =
        (\<lparr>isBot = True, v_confidence = 0.9, v_reason = Some invalid_browser_environment,
          v_score = Some (score_p1 (validateBrowserEnvironment_p1 req)),
          v_details = None, v_fingerprint = None\<rparr>, st1))"
proof (intro conjI impI)
  assume "req_ident req \<notin> legitimateClients st \<and> bc_score (validateBrowserEnvironment req) < 20"
  then show "detectBot h ahc cbs now req st =
        (Inr \<lparr>isBot = True, v_confidence = 0.95, v_reason = Some invalid_browser_environment,
              v_score = Some (bc_score (validateBrowserEnvironment req)),
              v_details = Some (BrowserDetails (req_headers req ''user-agent'')
                                  (bc_score (validateBrowserEnvironment req))),
              v_fingerprint = None\<rparr>, st)"
    by (simp add: detectBot_def Let_def) (simp add: validateBrowserEnvironment_def Let_def)
next
  assume "req_ident req \<notin> legitimateClients_p1 st1 \<and> score_p1 (validateBrowserEnvironment_p1 req) < 70"
  then show "detectBot_p1 h now req st1 =
        (\<lparr>isBot = True, v_confidence = 0.9, v_reason = Some invalid_browser_environment,
          v_score = Some (score_p1 (validateBrowserEnvironment_p1 req)),
          v_details = None, v_fingerprint = None\<rparr>, st1)"
    by (simp add: detectBot_p1_def Let_def) (simp add: validateBrowserEnvironment_p1_def Let_def)
qed

theorem invalid_environment_verdict_witness:
  "detectBot (\<lambda>s. s) not_a_function not_a_function 0 bare_request
       \<lparr>behaviorCache = [], legitimateClients = {}\<rparr> =
        (Inr \<lparr>isBot = True, v_confidence = 0.95, v_reason = Some invalid_browser_environment,
              v_score = Some (- 50), v_details = Some (BrowserDetails None (- 50)),
              v_fingerprint = None\<rparr>, \<lparr>behaviorCache = [], legitimateClients = {}\<rparr>)
   \<and> detectBot_p1 (\<lambda>s. s) 0 bare_request \<lparr>behaviorCache_p1 = [], legitimateClients_p1 = {}\<rparr> =
        (\<lparr>isBot = True, v_confidence = 0.9, v_reason = Some invalid_browser_environment,
          v_score = Some 0, v_details = None, v_fingerprint = None\<rparr>,
         \<lparr>behaviorCache_p1 = [], legitimateClients_p1 = {}\<rparr>)"
  using invalid_environment_verdict [of bare_request "\<lparr>behaviorCache = [], legitimateClients = {}\<rparr>"
      "\<lambda>s. s" not_a_function not_a_function 0 "\<lparr>behaviorCache_p1 = [], legitimateClients_p1 = {}\<rparr>"]
  by (simp add: bare_score bare_score_p1) (simp add: bare_request_def)

text \<open>
  C9. The suspicion count is monotone in the set of low factors: when every factor of the
  first triple that is below 0.3 is also below 0.3 in the second triple, the count of the
  first is at most the count of the second.
\<close>

theorem suspicion_monotone:
  assumes "t1 < 0.3 \<longrightarrow> t2 < 0.3" and "n1 < 0.3 \<longrightarrow> n2 < 0.3" and "h1 < 0.3 \<longrightarrow> h2 < 0.3"
  shows "calculateSuspiciousScore t1 n1 h1 \<le> calculateSuspiciousScore t2 n2 h2"
  using assms by (simp add: calculateSuspiciousScore_def)

theorem suspicion_monotone_witness:
  "calculateSuspiciousScore 1 0 1 \<le> calculateSuspiciousScore 0 0 1
   \<and> calculateSuspiciousScore 1 0 1 = 1 \<and> calculateSuspiciousScore 0 0 1 = 2"
proof -
  have "calculateSuspiciousScore 1 0 1 \<le> calculateSuspiciousScore 0 0 1"
    by (rule suspicion_monotone) simp_all
  then show ?thesis by (simp add: calculateSuspiciousScore_def)
qed

text \<open>
  C8 (the claim fails at the low end; amended). The environment score is not clamped at
  zero and can be negative: antiBot.js subtracts 50 for a missing user agent, 50 for each
  automation indicator in the user agent and 30 for an engine hint that disagrees with it,
  so a request without headers scores -50. What holds for every header map: the score of
  antiBot.js is at least -610, and the score of part_001, which only adds, is at least 0.
\<close>

theorem environment_score_lower_bounds:
  "- 610 \<le> bc_score (validateBrowserEnvironment req)
   \<and> 0 \<le> score_p1 (validateBrowserEnvironment_p1 req)"
proof -
  let ?hs = "req_headers req"
  have v2: "- 610 \<le> bc_score (validateBrowserEnvironment req)"
    using calculateHeaderScore_bounds [of ?hs] analyzeUserAgent_bounds [of "?hs ''user-agent''"]
      checkConsistency_bounds [of ?hs] validateSpecialHeaders_bounds [of ?hs]
    by (cases "truthy (?hs ''user-agent'')") (simp_all add: validateBrowserEnvironment_def Let_def)
  have v1: "0 \<le> score_p1 (validateBrowserEnvironment_p1 req)"
    using required_score_bounds [of 0 ?hs requiredHeaders_p1]
      analyzeUserAgent_p1_bounds [of "or_empty (?hs ''user-agent'')"]
    by (simp add: validateBrowserEnvironment_p1_def Let_def)
  from v2 v1 show ?thesis by simp
qed

theorem environment_score_negative:
  "bc_score (validateBrowserEnvironment bare_request) = - 50"
  by (rule bare_score)

text \<open>
  C3 (the claim fails on antiBot.js). The claim says that \<open>analyzeBehaviorPatterns\<close>
  returns a confidence in \<open>[0, 1]\<close> for every event history. In antiBot.js it returns
  nothing for the two-event history with the paths \<open>/\<close> and \<open>/check-ip\<close>: the navigation
  factor is computed before the header factor, and \<open>hasLogicalFlow\<close> raises a TypeError
  there, whatever \<open>analyzeHeaderConsistency\<close> would do. With \<open>analyzeHeaderConsistency\<close>
  undefined, as the file stands, it also raises where \<open>hasLogicalFlow\<close> returns, for
  instance on the paths \<open>/a\<close> and \<open>/b\<close>.
\<close>

theorem analyzeBehaviorPatterns_raises:
  "analyzeBehaviorPatterns ahc [chrome_event 0 ''/'', chrome_event 1000 ''/check-ip'']
     = Inl TypeError
   \<and> analyzeBehaviorPatterns not_a_function [chrome_event 0 ''/a'', chrome_event 1000 ''/b'']
     = Inl TypeError"
proof
  show "analyzeBehaviorPatterns ahc [chrome_event 0 ''/'', chrome_event 1000 ''/check-ip'']
          = Inl TypeError"
    by (rule root_history_raises)
  have "hasLogicalFlow [''/a'', ''/b''] = Inr False" by code_simp
  then show "analyzeBehaviorPatterns not_a_function
               [chrome_event 0 ''/a'', chrome_event 1000 ''/b''] = Inl TypeError"
    by (simp add: analyzeBehaviorPatterns_def analyzeNavigationPatterns_def chrome_event_def
          not_a_function_def Let_def del: hasLogicalFlow.simps)
qed

text \<open>
  C4 (the claim fails for the sweep; amended). After \<open>analyze\<close> at \<open>now\<close> the profile of the
  analysed fingerprint holds only events with \<open>now - timestamp < PATTERN_MEMORY\<close>; in
  antiBot.js this holds of the profile in the Map even when the call raises. The cleanup
  callback does not prune events: it deletes whole profiles, those with
  \<open>now - lastSeen > PATTERN_MEMORY\<close>, and leaves every other profile as it was. So a profile
  last seen four minutes ago keeps an event that is eight minutes old.
\<close>

theorem window_after_analyze:
  "(\<exists>d. map_get (snd (analyze_p1 now req fp c1)) fp = Some d
        \<and> (\<forall>p \<in> set (patterns_p1 d). now - timestamp p < PATTERN_MEMORY))
   \<and> (\<forall>d. map_get (snd (analyze ahc cbs now req fp c)) fp = Some d
          \<longrightarrow> (\<forall>p \<in> set (patterns d). now - timestamp p < PATTERN_MEMORY))
   \<and> (distinct (map fst c1) \<longrightarrow>
        map_get (cleanup_p1 now c1) fp' =
          (case map_get c1 fp' of None \<Rightarrow> None
           | Some d \<Rightarrow> if now - lastSeen_p1 d > PATTERN_MEMORY then None else Some d))"
proof (intro conjI allI impI)
  obtain d where "map_get (snd (analyze_p1 now req fp c1)) fp = Some d"
    and "patterns_p1 d =
           filter (\<lambda>p. now - timestamp p < PATTERN_MEMORY)
             (patterns_p1 (case map_get c1 fp of Some d \<Rightarrow> d
                 | None \<Rightarrow> \<lparr>patterns_p1 = [], lastSeen_p1 = now, behaviorScore_p1 = 0\<rparr>)
              @ [\<lparr>timestamp = now, path = req_path req, pattern_method = req_method req,
                  pattern_headers = getRelevantHeaders_p1 (req_headers req)\<rparr>])"
    using analyze_p1_patterns [of now req fp c1] by blast
  then show "\<exists>d. map_get (snd (analyze_p1 now req fp c1)) fp = Some d
        \<and> (\<forall>p \<in> set (patterns_p1 d). now - timestamp p < PATTERN_MEMORY)"
    by auto
next
  fix d assume "map_get (snd (analyze ahc cbs now req fp c)) fp = Some d"
  from analyze_patterns [OF this]
  show "\<forall>p \<in> set (patterns d). now - timestamp p < PATTERN_MEMORY" by auto
next
  assume "distinct (map fst c1)"
  then show "map_get (cleanup_p1 now c1) fp' =
          (case map_get c1 fp' of None \<Rightarrow> None
           | Some d \<Rightarrow> if now - lastSeen_p1 d > PATTERN_MEMORY then None else Some d)"
    by (rule cleanup_keeps_or_deletes)
qed

theorem window_after_analyze_witness:
  "(\<exists>d. map_get (snd (analyze_p1 400000 (chrome_request ''/a'' 1) ''alpha'' stale_cache)) ''alpha''
          = Some d
        \<and> (\<forall>p \<in> set (patterns_p1 d). 400000 - timestamp p < PATTERN_MEMORY))
   \<and> map_get (snd (analyze not_a_function not_a_function 400000 (chrome_request ''/a'' 1) ''f''
                     [(''f'', chrome_profile [chrome_event 0 ''/a''] 0)])) ''f''
        = Some (chrome_profile [chrome_event 400000 ''/a''] 0)
   \<and> list_all (\<lambda>p. 400000 - timestamp p < PATTERN_MEMORY)
        (patterns (chrome_profile [chrome_event 400000 ''/a''] 0))
   \<and> distinct (map fst stale_cache)
   \<and> map_get (cleanup_p1 400000 stale_cache) ''beta''
        = Some \<lparr>patterns_p1 = [], lastSeen_p1 = 200000, behaviorScore_p1 = 50\<rparr>"
proof -
  note w = window_after_analyze [where now = 400000 and req = "chrome_request ''/a'' 1"
      and fp = "''alpha''" and ?c1.0 = stale_cache and ahc = not_a_function
      and cbs = not_a_function and fp' = "''beta''"]
  have ev: "map_get (snd (analyze not_a_function not_a_function 400000 (chrome_request ''/a'' 1) ''f''
                     [(''f'', chrome_profile [chrome_event 0 ''/a''] 0)])) ''f''
        = Some (chrome_profile [chrome_event 400000 ''/a''] 0)"
    by (simp add: analyze_def map_get_hd Let_def chrome_request_event chrome_profile_def
          timestamp_chrome_event PATTERN_MEMORY_def analyzeBehaviorPatterns_def not_a_function_def)
  have dist: "distinct (map fst stale_cache)" by (simp add: stale_cache_def)
  have beta: "map_get stale_cache ''beta''
                = Some \<lparr>patterns_p1 = [], lastSeen_p1 = 200000, behaviorScore_p1 = 50\<rparr>"
    by (simp add: stale_cache_def map_get_def)
  from window_after_analyze [where now = 400000 and req = "chrome_request ''/a'' 1"
      and fp = "''f''" and ahc = not_a_function and cbs = not_a_function
      and c = "[(''f'', chrome_profile [chrome_event 0 ''/a''] 0)]"] ev
  have "\<forall>p \<in> set (patterns (chrome_profile [chrome_event 400000 ''/a''] 0)).
          400000 - timestamp p < PATTERN_MEMORY"
    by blast
  then have la: "list_all (\<lambda>p. 400000 - timestamp p < PATTERN_MEMORY)
                   (patterns (chrome_profile [chrome_event 400000 ''/a''] 0))"
    by (simp add: list_all_iff)
  from w dist beta have
    "map_get (cleanup_p1 400000 stale_cache) ''beta''
        = Some \<lparr>patterns_p1 = [], lastSeen_p1 = 200000, behaviorScore_p1 = 50\<rparr>"
    by (simp add: PATTERN_MEMORY_def)
  with w ev la dist show ?thesis by blast
qed

theorem cleanup_keeps_old_event:
  "map_option (\<lambda>d. map timestamp (patterns_p1 d))
     (map_get (cleanup_p1 480000
        (snd (analyze_p1 240000 (chrome_request ''/'' 1) ''f''
           (snd (analyze_p1 0 (chrome_request ''/'' 1) ''f'' []))))) ''f'')
     = Some [0, 240000]
   \<and> PATTERN_MEMORY < 480000 - 0"
  by code_simp

text \<open>
  C10. Start from the empty Map and make any sequence of \<open>analyze\<close> calls whose clock
  readings do not decrease. After the last call (so after each call) the profile stored
  under its fingerprint has its events in nondecreasing time order, its last event is the
  one just recorded, with the timestamp \<open>now\<close>, and its \<open>lastSeen\<close> is \<open>now\<close>. For part_001
  every call succeeds; for antiBot.js the statement is about the sequences in which no
  call raises.
\<close>

theorem analyze_store_invariant:
  assumes "sorted (map fst (calls @ [(now, req, fp)]))"
  shows "(\<exists>d. map_get (run_p1 (calls @ [(now, req, fp)]) []) fp = Some d
            \<and> sorted (map timestamp (patterns_p1 d))
            \<and> patterns_p1 d \<noteq> []
            \<and> last (patterns_p1 d) =
                \<lparr>timestamp = now, path = req_path req, pattern_method = req_method req,
                 pattern_headers = getRelevantHeaders_p1 (req_headers req)\<rparr>
            \<and> lastSeen_p1 d = now)
       \<and> (\<forall>c'. run ahc cbs (calls @ [(now, req, fp)]) [] = Some c' \<longrightarrow>
            (\<exists>d. map_get c' fp = Some d
               \<and> sorted (map timestamp (patterns d))
               \<and> patterns d \<noteq> []
               \<and> last (patterns d) =
                   \<lparr>timestamp = now, path = req_path req, pattern_method = req_method req,
                    pattern_headers = getRelevantHeaders (req_headers req)\<rparr>
               \<and> lastSeen d = now))"
proof (intro conjI allI impI)
  obtain T where s: "sorted (T # map fst calls)" and le: "last (T # map fst calls) \<le> now"
    using sorted_calls_bound [OF assms] by blast
  have "cache_ordered_p1 T []" by (simp add: cache_ordered_p1_def)
  from run_p1_ordered [OF this s]
  have inv: "cache_ordered_p1 (last (T # map fst calls)) (run_p1 calls [])" .
  have "run_p1 (calls @ [(now, req, fp)]) [] = snd (analyze_p1 now req fp (run_p1 calls []))"
    by (simp add: run_p1_append)
  with analyze_p1_step(2) [OF inv le, of req fp]
  show "\<exists>d. map_get (run_p1 (calls @ [(now, req, fp)]) []) fp = Some d
            \<and> sorted (map timestamp (patterns_p1 d))
            \<and> patterns_p1 d \<noteq> []
            \<and> last (patterns_p1 d) =
                \<lparr>timestamp = now, path = req_path req, pattern_method = req_method req,
                 pattern_headers = getRelevantHeaders_p1 (req_headers req)\<rparr>
            \<and> lastSeen_p1 d = now"
    by simp
next
  fix c' assume run: "run ahc cbs (calls @ [(now, req, fp)]) [] = Some c'"
  obtain T where s: "sorted (T # map fst calls)" and le: "last (T # map fst calls) \<le> now"
    using sorted_calls_bound [OF assms] by blast
  from run obtain c1 b where r1: "run ahc cbs calls [] = Some c1"
    and ok: "analyze ahc cbs now req fp c1 = (Inr b, c')"
    by (auto simp: run_append split: option.splits sum.splits prod.splits)
  have "cache_ordered T []" by (simp add: cache_ordered_def)
  from run_ordered [OF this s r1]
  have inv: "cache_ordered (last (T # map fst calls)) c1" .
  from analyze_step(2) [OF inv le ok]
  show "\<exists>d. map_get c' fp = Some d
               \<and> sorted (map timestamp (patterns d))
               \<and> patterns d \<noteq> []
               \<and> last (patterns d) =
                   \<lparr>timestamp = now, path = req_path req, pattern_method = req_method req,
                    pattern_headers = getRelevantHeaders (req_headers req)\<rparr>
               \<and> lastSeen d = now" .
qed

theorem analyze_store_invariant_witness:
  "sorted (map fst (two_calls @ [(1000, chrome_request ''/b'' 2, ''f'')]))
   \<and> (\<exists>d. map_get (run_p1 (two_calls @ [(1000, chrome_request ''/b'' 2, ''f'')]) []) ''f'' = Some d
         \<and> sorted (map timestamp (patterns_p1 d))
         \<and> patterns_p1 d \<noteq> []
         \<and> last (patterns_p1 d) = event_p1 1000 ''/b''
         \<and> lastSeen_p1 d = 1000)
   \<and> (\<exists>c'. run ahc_p1 cbs_p1 (two_calls @ [(1000, chrome_request ''/b'' 2, ''f'')]) [] = Some c'
         \<and> (\<exists>d. map_get c' ''f'' = Some d
               \<and> sorted (map timestamp (patterns d))
               \<and> patterns d \<noteq> []
               \<and> last (patterns d) = chrome_event 1000 ''/b''
               \<and> lastSeen d = 1000))"
proof -
  have s: "sorted (map fst (two_calls @ [(1000, chrome_request ''/b'' 2, ''f'')]))"
    by (simp add: two_calls_def)
  note inv = analyze_store_invariant [OF s, of ahc_p1 cbs_p1]
  obtain c' where r: "run ahc_p1 cbs_p1 (two_calls @ [(1000, chrome_request ''/b'' 2, ''f'')]) []
                        = Some c'"
    using two_calls_run by blast
  from inv r s show ?thesis
    unfolding chrome_request_event chrome_request_event_p1 by blast
qed

text \<open>
  C7 (the claim fails on part_001). The claim says that the verdict for suspicious
  behaviour needs a confidence below the human-like threshold and more than one low
  factor. \<open>detectBot\<close> of part_001 returns it on \<open>!behavior.humanLike\<close> alone. An ordinary
  Chrome client is admitted on its first request; on its second request, three seconds
  later, the single interval has no variability, so the timing factor is 0 while the
  navigation and header factors are 1, and the verdict is \<open>isBot = true\<close> with the reason
  \<open>suspicious_behavior\<close>: one low factor, where \<open>calculateSuspiciousScore\<close> of antiBot.js
  counts 1.
\<close>

theorem detectBot_p1_flags_one_low_factor:
  "\<not> isBot (fst (detectBot_p1 (\<lambda>s. s) 0 (ordinary_request 1) empty_state_p1))
   \<and> isBot (fst (detectBot_p1 (\<lambda>s. s) 3000 (ordinary_request 2) first_visit_state_p1))
   \<and> v_reason (fst (detectBot_p1 (\<lambda>s. s) 3000 (ordinary_request 2) first_visit_state_p1))
        = Some suspicious_behavior
   \<and> v_details (fst (detectBot_p1 (\<lambda>s. s) 3000 (ordinary_request 2) first_visit_state_p1))
        = Some (BehaviorDetails (Some \<lparr>timing = 0, navigation = 1, headers_factor = 1\<rparr>))
   \<and> v_confidence (fst (detectBot_p1 (\<lambda>s. s) 3000 (ordinary_request 2) first_visit_state_p1))
        < 0.7
   \<and> calculateSuspiciousScore 0 1 1 = 1"
  by code_simp

end
